theory Spec2Isabelle
  imports Complex_Main
begin

section \<open>JavaScript values\<close>

text \<open>
  The list store of \<^verbatim>\<open>main.js\<close> works on untyped JavaScript values: whatever
  \<^verbatim>\<open>JSON.parse\<close> finds in a backing file and whatever record arrives over the
  bridge. An object is its own enumerable properties in order (an association list, read
  with \<open>map_of\<close>). Numbers are the finite ones, as rationals: the store only compares
  them and tests their truthiness, it never computes with them.
\<close>

datatype jsval =
    Undefined
  | Null
  | Bool bool
  | Num rat
  | Str string
  | Arr "jsval list"
  | Obj "(string \<times> jsval) list"

datatype error = TypeError | IOError | SyntaxError | NetworkError

text \<open>The text of a file or of a storage slot: a JavaScript string, as its code units.\<close>

type_synonym jstext = "nat list"

text \<open>Truthiness, as \<^verbatim>\<open>!x\<close> and \<^verbatim>\<open>x || y\<close> use it.\<close>

fun truthy :: "jsval \<Rightarrow> bool" where
  "truthy Undefined = False"
| "truthy Null = False"
| "truthy (Bool b) = b"
| "truthy (Num r) = (r \<noteq> 0)"
| "truthy (Str s) = (s \<noteq> [])"
| "truthy (Arr xs) = True"
| "truthy (Obj kvs) = True"

definition js_or :: "jsval \<Rightarrow> jsval \<Rightarrow> jsval" where
  "js_or a b = (if truthy a then a else b)"

text \<open>
  \<^verbatim>\<open>a === b\<close>. Primitives compare by value. Arrays and objects compare by reference:
  the stored entries are fresh from \<^verbatim>\<open>JSON.parse\<close> and the argument is a fresh copy
  from the bridge, so two of them are never the same reference.
\<close>

fun strict_eq :: "jsval \<Rightarrow> jsval \<Rightarrow> bool" where
  "strict_eq Undefined Undefined = True"
| "strict_eq Null Null = True"
| "strict_eq (Bool a) (Bool b) = (a = b)"
| "strict_eq (Num a) (Num b) = (a = b)"
| "strict_eq (Str a) (Str b) = (a = b)"
| "strict_eq _ _ = False"

text \<open>
  \<^verbatim>\<open>v.k\<close> for the property names the store reads (\<^verbatim>\<open>mal_id\<close>, \<^verbatim>\<open>title\<close>, \<^verbatim>\<open>images\<close>, ...):
  a TypeError on \<^verbatim>\<open>undefined\<close> and \<^verbatim>\<open>null\<close>, the own property of an object, and
  \<^verbatim>\<open>undefined\<close> on every other value, none of whose prototypes has these names.
\<close>

fun get_prop :: "jsval \<Rightarrow> string \<Rightarrow> error + jsval" where
  "get_prop Undefined k = Inl TypeError"
| "get_prop Null k = Inl TypeError"
| "get_prop (Obj kvs) k = Inr (case map_of kvs k of None \<Rightarrow> Undefined | Some v \<Rightarrow> v)"
| "get_prop _ k = Inr Undefined"

text \<open>\<^verbatim>\<open>v?.k\<close>: \<^verbatim>\<open>undefined\<close> when \<open>v\<close> is \<^verbatim>\<open>undefined\<close> or \<^verbatim>\<open>null\<close>.\<close>

definition opt_prop :: "jsval \<Rightarrow> string \<Rightarrow> jsval" where
  "opt_prop v k = (case get_prop v k of Inl e \<Rightarrow> Undefined | Inr w \<Rightarrow> w)"

text \<open>\<^verbatim>\<open>v?.[0]\<close>.\<close>

fun opt_index0 :: "jsval \<Rightarrow> jsval" where
  "opt_index0 (Arr xs) = (case xs of [] \<Rightarrow> Undefined | x # _ \<Rightarrow> x)"
| "opt_index0 (Str s) = (case s of [] \<Rightarrow> Undefined | c # _ \<Rightarrow> Str [c])"
| "opt_index0 (Obj kvs) = (case map_of kvs ''0'' of None \<Rightarrow> Undefined | Some v \<Rightarrow> v)"
| "opt_index0 _ = Undefined"

text \<open>Decimal digits of a number: \<^verbatim>\<open>Date.now().toString()\<close> and the index keys of a spread.\<close>

fun show_nat :: "nat \<Rightarrow> string" where
  "show_nat n =
     (if n < 10 then [char_of (48 + n)]
      else show_nat (n div 10) @ [char_of (48 + n mod 10)])"

declare show_nat.simps [simp del]

text \<open>
  The own enumerable properties that \<^verbatim>\<open>{...v}\<close> copies: those of an object, the indexed
  elements of an array, the indexed characters of a string, nothing of any other value.
\<close>

fun spread :: "jsval \<Rightarrow> (string \<times> jsval) list" where
  "spread (Obj kvs) = kvs"
| "spread (Arr xs) = zip (map show_nat [0 ..< length xs]) xs"
| "spread (Str s) = zip (map show_nat [0 ..< length s]) (map (\<lambda>c. Str [c]) s)"
| "spread _ = []"

text \<open>Defining one property in an object literal: overwrite in place, or append.\<close>

fun set_prop :: "string \<Rightarrow> jsval \<Rightarrow> (string \<times> jsval) list \<Rightarrow> (string \<times> jsval) list" where
  "set_prop k v [] = [(k, v)]"
| "set_prop k v ((k', v') # kvs) =
     (if k' = k then (k, v) # kvs else (k', v') # set_prop k v kvs)"

text \<open>\<^verbatim>\<open>{ ...a, ...b }\<close>.\<close>

definition spread_merge :: "jsval \<Rightarrow> jsval \<Rightarrow> jsval" where
  "spread_merge a b =
     Obj (fold (\<lambda>(k, v). set_prop k v) (spread b) (fold (\<lambda>(k, v). set_prop k v) (spread a) []))"

subsection \<open>Array methods with a callback that can throw\<close>

fun js_find :: "(jsval \<Rightarrow> error + bool) \<Rightarrow> jsval list \<Rightarrow> error + jsval" where
  "js_find p [] = Inr Undefined"
| "js_find p (x # xs) =
     (case p x of
        Inl e \<Rightarrow> Inl e
      | Inr b \<Rightarrow> if b then Inr x else js_find p xs)"

text \<open>\<^verbatim>\<open>findIndex\<close>: \<open>None\<close> stands for the result \<^verbatim>\<open>-1\<close>.\<close>

fun js_findIndex :: "(jsval \<Rightarrow> error + bool) \<Rightarrow> jsval list \<Rightarrow> error + nat option" where
  "js_findIndex p [] = Inr None"
| "js_findIndex p (x # xs) =
     (case p x of
        Inl e \<Rightarrow> Inl e
      | Inr b \<Rightarrow>
          if b then Inr (Some 0)
          else (case js_findIndex p xs of
                  Inl e \<Rightarrow> Inl e
                | Inr None \<Rightarrow> Inr None
                | Inr (Some i) \<Rightarrow> Inr (Some (Suc i))))"

fun js_filter :: "(jsval \<Rightarrow> error + bool) \<Rightarrow> jsval list \<Rightarrow> error + jsval list" where
  "js_filter p [] = Inr []"
| "js_filter p (x # xs) =
     (case p x of
        Inl e \<Rightarrow> Inl e
      | Inr b \<Rightarrow>
          (case js_filter p xs of
             Inl e \<Rightarrow> Inl e
           | Inr ys \<Rightarrow> Inr (if b then x # ys else ys)))"

text \<open>The callbacks \<^verbatim>\<open>a => a.mal_id === id\<close> and \<^verbatim>\<open>a => a.mal_id !== id\<close>.\<close>

definition mal_id_is :: "jsval \<Rightarrow> jsval \<Rightarrow> error + bool" where
  "mal_id_is ident a =
     (case get_prop a ''mal_id'' of Inl e \<Rightarrow> Inl e | Inr v \<Rightarrow> Inr (strict_eq v ident))"

definition mal_id_is_not :: "jsval \<Rightarrow> jsval \<Rightarrow> error + bool" where
  "mal_id_is_not ident a =
     (case get_prop a ''mal_id'' of Inl e \<Rightarrow> Inl e | Inr v \<Rightarrow> Inr (\<not> strict_eq v ident))"

section \<open>The platform: text, JSON, the file system, the clock\<close>

text \<open>
  \<^verbatim>\<open>String.prototype.trim\<close> removes white space and line terminators from both ends.
\<close>

definition is_js_space :: "nat \<Rightarrow> bool" where
  "is_js_space c \<longleftrightarrow>
     c \<in> set [9, 10, 11, 12, 13, 32, 160, 5760, 8232, 8233, 8239, 8287, 12288, 65279]
     \<or> (8192 \<le> c \<and> c \<le> 8202)"

definition js_trim :: "jstext \<Rightarrow> jstext" where
  "js_trim t = rev (dropWhile is_js_space (rev (dropWhile is_js_space t)))"

text \<open>
  \<^verbatim>\<open>JSON.parse\<close> and \<^verbatim>\<open>JSON.stringify\<close> belong to the runtime, not to this program:
  they are parameters of the model. \<open>json_parse t = None\<close> when the call throws a
  SyntaxError; the first argument of \<open>json_stringify\<close> is the indentation (\<open>2\<close> in
  \<^verbatim>\<open>saveData\<close>, \<open>0\<close> in the renderer).
\<close>

record platform =
  json_parse :: "jstext \<Rightarrow> jsval option"
  json_stringify :: "nat \<Rightarrow> jsval \<Rightarrow> jstext"

text \<open>
  What \<^verbatim>\<open>JSON.stringify\<close> keeps of a value: a property whose value is \<^verbatim>\<open>undefined\<close>
  is left out, an \<^verbatim>\<open>undefined\<close> array element becomes \<^verbatim>\<open>null\<close>.
\<close>

fun json_norm :: "jsval \<Rightarrow> jsval"
  and json_norm_elems :: "jsval list \<Rightarrow> jsval list"
  and json_norm_props :: "(string \<times> jsval) list \<Rightarrow> (string \<times> jsval) list" where
  "json_norm (Arr xs) = Arr (json_norm_elems xs)"
| "json_norm (Obj kvs) = Obj (json_norm_props kvs)"
| "json_norm Undefined = Undefined"
| "json_norm Null = Null"
| "json_norm (Bool b) = Bool b"
| "json_norm (Num r) = Num r"
| "json_norm (Str s) = Str s"
| "json_norm_elems [] = []"
| "json_norm_elems (x # xs) =
     (if x = Undefined then Null else json_norm x) # json_norm_elems xs"
| "json_norm_props [] = []"
| "json_norm_props ((k, v) # kvs) =
     (if v = Undefined then json_norm_props kvs else (k, json_norm v) # json_norm_props kvs)"

text \<open>
  The contract of the JSON library that the store relies on: serialising an array and
  parsing the text gives the array back (as far as JSON keeps it), the text of an array
  is not blank, and a parsed value is a JSON value.
\<close>

definition json_contract :: "platform \<Rightarrow> bool" where
  "json_contract P \<longleftrightarrow>
     (\<forall>n xs. json_parse P (json_stringify P n (Arr xs)) = Some (json_norm (Arr xs)))
     \<and> (\<forall>n xs. js_trim (json_stringify P n (Arr xs)) \<noteq> [])
     \<and> (\<forall>t v. json_parse P t = Some v \<longrightarrow> json_norm v = v)"

text \<open>
  The three list kinds, each with its own backing file in one data directory
  (\<^verbatim>\<open>data/watchlist.json\<close>, \<^verbatim>\<open>data/readinglist.json\<close>, \<^verbatim>\<open>data/favorites.json\<close>).
\<close>

datatype kind = Watchlist | Readinglist | Favorites

text \<open>
  What the store writes with \<^verbatim>\<open>console.error\<close>: the message of each \<^verbatim>\<open>catch\<close> of
  \<^verbatim>\<open>DataManager\<close> with the list kind (\<^verbatim>\<open>this.type\<close>) in it, and the exception caught.
  The progress lines of \<^verbatim>\<open>console.log\<close> are not recorded.
\<close>

datatype log_line =
    ErrorReading kind error
  | ErrorSaving kind error
  | ErrorAdding kind error
  | ErrorRemoving kind error
  | ErrorUpdating kind error

text \<open>
  The disk: whether the data directory exists, the text of each backing file (\<open>None\<close>
  when the file is missing), and whether \<^verbatim>\<open>mkdirSync\<close>, \<^verbatim>\<open>readFileSync\<close> and
  \<^verbatim>\<open>writeFileSync\<close> succeed in this environment. \<^verbatim>\<open>writeFileSync\<close> opens the file
  with the flag \<^verbatim>\<open>w\<close>, which creates or empties it, and then writes the text. A write
  that fails does so at the open, and the file is as it was, or after the open, and the
  file is left empty: \<open>write_truncates\<close> tells which. The record also carries the lines
  that the main process has written with \<^verbatim>\<open>console.error\<close>, so that a run of the store
  is a function of one state.
\<close>

record disk =
  dir_exists :: bool
  files :: "kind \<Rightarrow> jstext option"
  mkdir_ok :: bool
  read_ok :: bool
  write_ok :: bool
  write_truncates :: bool
  error_log :: "log_line list"

definition console_error :: "log_line \<Rightarrow> disk \<Rightarrow> disk" where
  "console_error line d = d\<lparr>error_log := error_log d @ [line]\<rparr>"

text \<open>A handler \<^verbatim>\<open>catch (error) { console.error(..., error); throw error; }\<close>.\<close>

definition log_and_rethrow ::
  "(error \<Rightarrow> log_line) \<Rightarrow> (error + 'a) \<times> disk \<Rightarrow> (error + 'a) \<times> disk" where
  "log_and_rethrow line r =
     (case r of
        (Inl e, d) \<Rightarrow> (Inl e, console_error (line e) d)
      | (Inr v, d) \<Rightarrow> (Inr v, d))"

text \<open>\<^verbatim>\<open>Date.now()\<close> in milliseconds and \<^verbatim>\<open>new Date().toISOString()\<close> at one call.\<close>

record clock =
  now_ms :: nat
  now_iso :: string

section \<open>The list store: class DataManager of main.js\<close>

text \<open>
  \<^verbatim>\<open>saveData\<close> serialises the whole array and overwrites the backing file; a failing
  \<^verbatim>\<open>writeFileSync\<close> is logged and thrown again. The store calls it with arrays only.
\<close>

definition saveData :: "platform \<Rightarrow> kind \<Rightarrow> jsval \<Rightarrow> disk \<Rightarrow> (error + unit) \<times> disk" where
  "saveData P k data d =
     log_and_rethrow (ErrorSaving k)
       (if dir_exists d \<and> write_ok d
        then (Inr (), d\<lparr>files := (files d)(k \<mapsto> json_stringify P 2 data)\<rparr>)
        else if dir_exists d \<and> write_truncates d
        then (Inl IOError, d\<lparr>files := (files d)(k \<mapsto> [])\<rparr>)
        else (Inl IOError, d))"

text \<open>
  The constructor calls \<^verbatim>\<open>ensureDataDirectory\<close>. A failing \<^verbatim>\<open>mkdirSync\<close> throws out of
  the constructor. \<^verbatim>\<open>saveData([])\<close> is an async call that nobody awaits: when its
  write fails, the failure is logged by \<^verbatim>\<open>saveData\<close>, the rejection is dropped and the
  constructor returns normally.
\<close>

definition ensureDataDirectory :: "platform \<Rightarrow> kind \<Rightarrow> disk \<Rightarrow> (error + unit) \<times> disk" where
  "ensureDataDirectory P k d =
     (if \<not> dir_exists d \<and> \<not> mkdir_ok d then (Inl IOError, d)
      else
        let d1 = (if dir_exists d then d else d\<lparr>dir_exists := True\<rparr>) in
        if files d1 k = None then (Inr (), snd (saveData P k (Arr []) d1))
        else (Inr (), d1))"

text \<open>
  \<^verbatim>\<open>getWatchlist\<close> (\<^verbatim>\<open>getReadingList\<close> and \<^verbatim>\<open>getFavorites\<close> call it). Its \<^verbatim>\<open>catch\<close>
  takes every exception of the body: a failing read, a SyntaxError of \<^verbatim>\<open>JSON.parse\<close>,
  and the TypeError of \<^verbatim>\<open>parsedData.length\<close> in the progress line when the file holds
  \<^verbatim>\<open>null\<close> (only whether that read throws matters). The handler logs the exception,
  resets the file with an un-awaited \<^verbatim>\<open>saveData([])\<close> and returns \<^verbatim>\<open>[]\<close>. The method
  itself never throws.
\<close>

definition getWatchlist :: "platform \<Rightarrow> kind \<Rightarrow> disk \<Rightarrow> jsval \<times> disk" where
  "getWatchlist P k d =
     (case files d k of
        None \<Rightarrow> (Arr [], d)
      | Some data \<Rightarrow>
          (case
             (if \<not> read_ok d then Inl IOError
              else if js_trim data = [] then Inr (Arr [])
              else
                (case json_parse P data of
                   None \<Rightarrow> Inl SyntaxError
                 | Some parsedData \<Rightarrow>
                     (case get_prop parsedData ''length'' of
                        Inl e \<Rightarrow> Inl e
                      | Inr n \<Rightarrow> Inr parsedData)))
           of
             Inl e \<Rightarrow>
               (Arr [], snd (saveData P k (Arr []) (console_error (ErrorReading k e) d)))
           | Inr v \<Rightarrow> (v, d)))"

definition getReadingList :: "platform \<Rightarrow> kind \<Rightarrow> disk \<Rightarrow> jsval \<times> disk" where
  "getReadingList = getWatchlist"

definition getFavorites :: "platform \<Rightarrow> kind \<Rightarrow> disk \<Rightarrow> jsval \<times> disk" where
  "getFavorites = getWatchlist"

text \<open>
  The entry literals of the three \<^verbatim>\<open>addTo...\<close> methods. Reading \<^verbatim>\<open>anime.mal_id\<close> throws
  when the record is \<^verbatim>\<open>undefined\<close> or \<^verbatim>\<open>null\<close>; after it, the other reads cannot.
\<close>

definition animeItem :: "clock \<Rightarrow> jsval \<Rightarrow> error + jsval" where
  "animeItem clk anime =
     (case get_prop anime ''mal_id'' of
        Inl e \<Rightarrow> Inl e
      | Inr mal \<Rightarrow> Inr (Obj
          [(''id'', Str (show_nat (now_ms clk))),
           (''mal_id'', mal),
           (''title'', opt_prop anime ''title''),
           (''image'', opt_prop (opt_prop (opt_prop anime ''images'') ''jpg'') ''image_url''),
           (''episodes'', js_or (opt_prop anime ''episodes'') (Num 0)),
           (''score'', js_or (opt_prop anime ''score'') (Num 0)),
           (''episodes_watched'', Num 0),
           (''status'', Str ''planning''),
           (''rating'', Num 0),
           (''notes'', Str []),
           (''added_date'', Str (now_iso clk))]))"

definition mangaItem :: "clock \<Rightarrow> jsval \<Rightarrow> error + jsval" where
  "mangaItem clk manga =
     (case get_prop manga ''mal_id'' of
        Inl e \<Rightarrow> Inl e
      | Inr mal \<Rightarrow> Inr (Obj
          [(''id'', Str (show_nat (now_ms clk))),
           (''mal_id'', mal),
           (''title'', opt_prop manga ''title''),
           (''image'', opt_prop (opt_prop (opt_prop manga ''images'') ''jpg'') ''image_url''),
           (''chapters'', js_or (opt_prop manga ''chapters'') (Num 0)),
           (''score'', js_or (opt_prop manga ''score'') (Num 0)),
           (''chapters_read'', Num 0),
           (''status'', Str ''planning''),
           (''rating'', Num 0),
           (''notes'', Str []),
           (''added_date'', Str (now_iso clk))]))"

definition characterItem :: "clock \<Rightarrow> jsval \<Rightarrow> error + jsval" where
  "characterItem clk character =
     (case get_prop character ''mal_id'' of
        Inl e \<Rightarrow> Inl e
      | Inr mal \<Rightarrow> Inr (Obj
          [(''id'', Str (show_nat (now_ms clk))),
           (''mal_id'', mal),
           (''name'', opt_prop character ''name''),
           (''image'', opt_prop (opt_prop (opt_prop character ''images'') ''jpg'') ''image_url''),
           (''anime'',
              js_or (opt_prop (opt_prop (opt_index0 (opt_prop character ''anime'')) ''anime'') ''title'')
                (Str ''Unknown'')),
           (''favorites'', js_or (opt_prop character ''favorites'') (Num 0)),
           (''added_date'', Str (now_iso clk))]))"

text \<open>The callback \<^verbatim>\<open>a => a.mal_id === anime.mal_id\<close> of the duplicate check.\<close>

definition mal_id_matches :: "jsval \<Rightarrow> jsval \<Rightarrow> error + bool" where
  "mal_id_matches record a =
     (case get_prop a ''mal_id'' of
        Inl e \<Rightarrow> Inl e
      | Inr v \<Rightarrow>
          (case get_prop record ''mal_id'' of
             Inl e \<Rightarrow> Inl e
           | Inr w \<Rightarrow> Inr (strict_eq v w)))"

text \<open>
  The body that \<^verbatim>\<open>addToWatchlist\<close>, \<^verbatim>\<open>addToReadingList\<close> and \<^verbatim>\<open>addToFavorites\<close> share, with
  the entry literal as a parameter: read the list, build the entry, and push and save
  it unless \<^verbatim>\<open>find\<close> returns a truthy entry. Calling \<^verbatim>\<open>find\<close> on a value that is not an
  array is a TypeError. The \<^verbatim>\<open>catch\<close> logs and throws again.
\<close>

definition add_entry ::
  "(clock \<Rightarrow> jsval \<Rightarrow> error + jsval) \<Rightarrow> platform \<Rightarrow> kind \<Rightarrow> clock \<Rightarrow> jsval \<Rightarrow> disk
     \<Rightarrow> (error + jsval) \<times> disk" where
  "add_entry mk P k clk record d =
     log_and_rethrow (ErrorAdding k)
       (case getWatchlist P k d of
          (watchlist, d1) \<Rightarrow>
            (case mk clk record of
               Inl e \<Rightarrow> (Inl e, d1)
             | Inr item \<Rightarrow>
                 (case watchlist of
                    Arr xs \<Rightarrow>
                      (case js_find (mal_id_matches record) xs of
                         Inl e \<Rightarrow> (Inl e, d1)
                       | Inr found \<Rightarrow>
                           if \<not> truthy found then
                             (case saveData P k (Arr (xs @ [item])) d1 of
                                (Inl e, d2) \<Rightarrow> (Inl e, d2)
                              | (Inr u, d2) \<Rightarrow> (Inr (Arr (xs @ [item])), d2))
                           else (Inr (Arr xs), d1))
                  | _ \<Rightarrow> (Inl TypeError, d1))))"

definition addToWatchlist ::
  "platform \<Rightarrow> kind \<Rightarrow> clock \<Rightarrow> jsval \<Rightarrow> disk \<Rightarrow> (error + jsval) \<times> disk" where
  "addToWatchlist = add_entry animeItem"

definition addToReadingList ::
  "platform \<Rightarrow> kind \<Rightarrow> clock \<Rightarrow> jsval \<Rightarrow> disk \<Rightarrow> (error + jsval) \<times> disk" where
  "addToReadingList = add_entry mangaItem"

definition addToFavorites ::
  "platform \<Rightarrow> kind \<Rightarrow> clock \<Rightarrow> jsval \<Rightarrow> disk \<Rightarrow> (error + jsval) \<times> disk" where
  "addToFavorites = add_entry characterItem"

text \<open>
  \<^verbatim>\<open>removeFromWatchlist\<close> (\<^verbatim>\<open>removeFromReadingList\<close> and \<^verbatim>\<open>removeFromFavorites\<close> call it):
  \<^verbatim>\<open>find\<close> for the log line, \<^verbatim>\<open>filter\<close>, and a save in every case.
\<close>

definition removeFromWatchlist ::
  "platform \<Rightarrow> kind \<Rightarrow> jsval \<Rightarrow> disk \<Rightarrow> (error + jsval) \<times> disk" where
  "removeFromWatchlist P k ident d =
     log_and_rethrow (ErrorRemoving k)
       (case getWatchlist P k d of
          (watchlist, d1) \<Rightarrow>
            (case watchlist of
               Arr xs \<Rightarrow>
                 (case js_find (mal_id_is ident) xs of
                    Inl e \<Rightarrow> (Inl e, d1)
                  | Inr itemToRemove \<Rightarrow>
                      (case js_filter (mal_id_is_not ident) xs of
                         Inl e \<Rightarrow> (Inl e, d1)
                       | Inr ys \<Rightarrow>
                           (case saveData P k (Arr ys) d1 of
                              (Inl e, d2) \<Rightarrow> (Inl e, d2)
                            | (Inr u, d2) \<Rightarrow> (Inr (Arr ys), d2))))
             | _ \<Rightarrow> (Inl TypeError, d1)))"

definition removeFromReadingList ::
  "platform \<Rightarrow> kind \<Rightarrow> jsval \<Rightarrow> disk \<Rightarrow> (error + jsval) \<times> disk" where
  "removeFromReadingList = removeFromWatchlist"

definition removeFromFavorites ::
  "platform \<Rightarrow> kind \<Rightarrow> jsval \<Rightarrow> disk \<Rightarrow> (error + jsval) \<times> disk" where
  "removeFromFavorites = removeFromWatchlist"

text \<open>
  \<^verbatim>\<open>updateWatchlist\<close>: the first entry with the ID is replaced by the shallow merge
  \<^verbatim>\<open>{ ...watchlist[index], ...updates }\<close> and the array is saved; when no entry has the ID,
  nothing is saved and the array is returned as it was read.
\<close>

definition updateWatchlist ::
  "platform \<Rightarrow> kind \<Rightarrow> jsval \<Rightarrow> jsval \<Rightarrow> disk \<Rightarrow> (error + jsval) \<times> disk" where
  "updateWatchlist P k ident updates d =
     log_and_rethrow (ErrorUpdating k)
       (case getWatchlist P k d of
          (watchlist, d1) \<Rightarrow>
            (case watchlist of
               Arr xs \<Rightarrow>
                 (case js_findIndex (mal_id_is ident) xs of
                    Inl e \<Rightarrow> (Inl e, d1)
                  | Inr None \<Rightarrow> (Inr (Arr xs), d1)
                  | Inr (Some i) \<Rightarrow>
                      (case saveData P k (Arr (xs[i := spread_merge (xs ! i) updates])) d1 of
                         (Inl e, d2) \<Rightarrow> (Inl e, d2)
                       | (Inr u, d2) \<Rightarrow>
                           (Inr (Arr (xs[i := spread_merge (xs ! i) updates])), d2)))
             | _ \<Rightarrow> (Inl TypeError, d1)))"

section \<open>The request bridge: the handlers of setupIPC\<close>

text \<open>
  Each handler builds a new \<^verbatim>\<open>DataManager\<close> for the file of its list kind (the getters
  \<^verbatim>\<open>watchlistManager\<close>, \<^verbatim>\<open>readingListManager\<close>, \<^verbatim>\<open>favoritesManager\<close>), which runs the
  constructor, and calls one method. An argument the caller leaves out is \<^verbatim>\<open>undefined\<close>.
\<close>

datatype request =
    GetWatchlist
  | AddToWatchlist jsval
  | RemoveFromWatchlist jsval
  | UpdateWatchlist jsval jsval
  | GetReadinglist
  | AddToReadinglist jsval
  | RemoveFromReadinglist jsval
  | GetFavorites
  | AddToFavorites jsval
  | RemoveFromFavorites jsval

definition with_manager ::
  "platform \<Rightarrow> kind \<Rightarrow> (disk \<Rightarrow> (error + jsval) \<times> disk) \<Rightarrow> disk \<Rightarrow> (error + jsval) \<times> disk" where
  "with_manager P k method d =
     (case ensureDataDirectory P k d of
        (Inl e, d1) \<Rightarrow> (Inl e, d1)
      | (Inr u, d1) \<Rightarrow> method d1)"

definition returning :: "jsval \<times> disk \<Rightarrow> (error + jsval) \<times> disk" where
  "returning r = (Inr (fst r), snd r)"

fun ipc_handle :: "platform \<Rightarrow> clock \<Rightarrow> request \<Rightarrow> disk \<Rightarrow> (error + jsval) \<times> disk" where
  "ipc_handle P clk GetWatchlist d =
     with_manager P Watchlist (\<lambda>d. returning (getWatchlist P Watchlist d)) d"
| "ipc_handle P clk (AddToWatchlist anime) d =
     with_manager P Watchlist (addToWatchlist P Watchlist clk anime) d"
| "ipc_handle P clk (RemoveFromWatchlist ident) d =
     with_manager P Watchlist (removeFromWatchlist P Watchlist ident) d"
| "ipc_handle P clk (UpdateWatchlist ident updates) d =
     with_manager P Watchlist (updateWatchlist P Watchlist ident updates) d"
| "ipc_handle P clk GetReadinglist d =
     with_manager P Readinglist (\<lambda>d. returning (getReadingList P Readinglist d)) d"
| "ipc_handle P clk (AddToReadinglist manga) d =
     with_manager P Readinglist (addToReadingList P Readinglist clk manga) d"
| "ipc_handle P clk (RemoveFromReadinglist ident) d =
     with_manager P Readinglist (removeFromReadingList P Readinglist ident) d"
| "ipc_handle P clk GetFavorites d =
     with_manager P Favorites (\<lambda>d. returning (getFavorites P Favorites d)) d"
| "ipc_handle P clk (AddToFavorites character) d =
     with_manager P Favorites (addToFavorites P Favorites clk character) d"
| "ipc_handle P clk (RemoveFromFavorites ident) d =
     with_manager P Favorites (removeFromFavorites P Favorites ident) d"

section \<open>A codec that meets the contract\<close>

text \<open>
  The theorems below hold for every platform that meets \<open>json_contract\<close>. To show that
  the contract can be met, and to run the store on concrete disks, here is a small
  codec. A value is written in postfix, one token \<open>16 * payload + tag\<close> per node: the
  tokens of the parts come first, the token of the node last, with the number of parts
  as its payload. Reading is one pass over the tokens with a stack.
\<close>

fun demo_encode :: "jsval \<Rightarrow> jstext"
  and demo_encode_elems :: "jsval list \<Rightarrow> jstext"
  and demo_encode_props :: "(string \<times> jsval) list \<Rightarrow> jstext" where
  "demo_encode Undefined = []"
| "demo_encode Null = [1]"
| "demo_encode (Bool b) = [16 * (if b then 1 else 0) + 2]"
| "demo_encode (Num r) =
     (case quotient_of r of
        (a, b) \<Rightarrow> [16 * nat \<bar>a\<bar> + 3, 16 * nat b + (if a < 0 then 5 else 4)])"
| "demo_encode (Str s) = map (\<lambda>c. 16 * of_char c + 3) s @ [16 * length s + 6]"
| "demo_encode (Arr xs) = demo_encode_elems xs @ [16 * length xs + 14]"
| "demo_encode (Obj kvs) = demo_encode_props kvs @ [16 * length kvs + 7]"
| "demo_encode_elems [] = []"
| "demo_encode_elems (x # xs) = demo_encode x @ demo_encode_elems xs"
| "demo_encode_props [] = []"
| "demo_encode_props ((k, v) # kvs) =
     (map (\<lambda>c. 16 * of_char c + 3) k @ [16 * length k + 6]) @ demo_encode v
       @ demo_encode_props kvs"

datatype item = Raw nat | Val jsval

fun pop_raws :: "nat \<Rightarrow> item list \<Rightarrow> nat list \<Rightarrow> (nat list \<times> item list) option" where
  "pop_raws 0 st acc = Some (acc, st)"
| "pop_raws (Suc n) (Raw a # st) acc = pop_raws n st (a # acc)"
| "pop_raws (Suc n) _ acc = None"

fun pop_vals :: "nat \<Rightarrow> item list \<Rightarrow> jsval list \<Rightarrow> (jsval list \<times> item list) option" where
  "pop_vals 0 st acc = Some (acc, st)"
| "pop_vals (Suc n) (Val v # st) acc = pop_vals n st (v # acc)"
| "pop_vals (Suc n) _ acc = None"

fun pop_props ::
  "nat \<Rightarrow> item list \<Rightarrow> (string \<times> jsval) list \<Rightarrow> ((string \<times> jsval) list \<times> item list) option" where
  "pop_props 0 st acc = Some (acc, st)"
| "pop_props (Suc n) (Val v # Val (Str k) # st) acc = pop_props n st ((k, v) # acc)"
| "pop_props (Suc n) _ acc = None"

definition demo_exec :: "nat \<Rightarrow> nat \<Rightarrow> item list \<Rightarrow> item list option" where
  "demo_exec tag n st =
     (if tag = 1 then Some (Val Null # st)
      else if tag = 2 then Some (Val (Bool (n \<noteq> 0)) # st)
      else if tag = 3 then Some (Raw n # st)
      else if tag = 4 then
        (case st of Raw a # st' \<Rightarrow> Some (Val (Num (of_nat a / of_nat n)) # st') | _ \<Rightarrow> None)
      else if tag = 5 then
        (case st of Raw a # st' \<Rightarrow> Some (Val (Num (- (of_nat a / of_nat n))) # st') | _ \<Rightarrow> None)
      else if tag = 6 then
        (case pop_raws n st [] of
           Some (cs, st') \<Rightarrow> Some (Val (Str (map char_of cs)) # st')
         | None \<Rightarrow> None)
      else if tag = 7 then
        (case pop_props n st [] of
           Some (kvs, st') \<Rightarrow> Some (Val (Obj kvs) # st')
         | None \<Rightarrow> None)
      else if tag = 14 then
        (case pop_vals n st [] of
           Some (xs, st') \<Rightarrow> Some (Val (Arr xs) # st')
         | None \<Rightarrow> None)
      else None)"

fun demo_run :: "jstext \<Rightarrow> item list \<Rightarrow> item list option" where
  "demo_run [] st = Some st"
| "demo_run (t # ts) st =
     (case demo_exec (t mod 16) (t div 16) st of
        None \<Rightarrow> None
      | Some st' \<Rightarrow> demo_run ts st')"

definition demo_parse :: "jstext \<Rightarrow> jsval option" where
  "demo_parse t =
     (case demo_run t [] of
        Some [Val v] \<Rightarrow> Some v
      | _ \<Rightarrow> None)"

definition demo_platform :: platform where
  "demo_platform =
     \<lparr>json_parse = demo_parse, json_stringify = (\<lambda>n v. demo_encode (json_norm v))\<rparr>"

section \<open>The rendering surface: the bridge path and the local-storage path\<close>

text \<open>
  The renderer classes test \<^verbatim>\<open>window.electronAPI\<close>. When it is there, they call the
  handlers of the main process through \<^verbatim>\<open>ipcRenderer.invoke\<close>; when it is not, they use
  \<^verbatim>\<open>localStorage\<close>, or only tell the user. \<open>bridge\<close> is the disk of the main process
  when the bridge is available. The notifications are what the user is shown.
\<close>

datatype notice =
    Added jsval
  | RequiresDesktopApp
  | FailedToAdd
  | RemovedFromFavorites
  | FailedToRemove

record renderer =
  bridge :: "disk option"
  local_storage :: "string \<Rightarrow> jstext option"
  notifications :: "notice list"
  watchlist :: jsval
  favorites :: jsval

text \<open>
  What the model takes from the user interface: the answer to \<^verbatim>\<open>confirm(...)\<close>, and
  whether the drawing code (\<^verbatim>\<open>applyFiltersAndSort\<close>, \<^verbatim>\<open>renderFavorites\<close>) runs through on
  a collection without an exception. The drawing code writes the filtered copy and the
  page only.
\<close>

record ui =
  confirmed :: bool
  renders :: "jsval \<Rightarrow> bool"

definition showNotification :: "notice \<Rightarrow> renderer \<Rightarrow> renderer" where
  "showNotification n r = r\<lparr>notifications := notifications r @ [n]\<rparr>"


text \<open>\<^verbatim>\<open>saved ? JSON.parse(saved) : []\<close> on \<^verbatim>\<open>localStorage.getItem(key)\<close>.\<close>

definition load_saved :: "platform \<Rightarrow> string \<Rightarrow> renderer \<Rightarrow> error + jsval" where
  "load_saved P key r =
     (case local_storage r key of
        None \<Rightarrow> Inr (Arr [])
      | Some saved \<Rightarrow>
          if saved = [] then Inr (Arr [])
          else (case json_parse P saved of None \<Rightarrow> Inl SyntaxError | Some v \<Rightarrow> Inr v))"


text \<open>
  \<^verbatim>\<open>FavoritesManager.removeFavorite\<close> (search.js): after the confirmation, the stored
  collection is filtered through the bridge or in \<^verbatim>\<open>localStorage\<close>, then the collection
  in memory is filtered and drawn. Any exception ends in the \<^verbatim>\<open>catch\<close>. The second half
  (under the comment \<^verbatim>\<open>Update local data\<close>) is \<open>update_local_favorites\<close>.
\<close>

definition update_local_favorites :: "ui \<Rightarrow> jsval \<Rightarrow> renderer \<Rightarrow> renderer" where
  "update_local_favorites u characterId r1 =
     (case favorites r1 of
        Arr fs \<Rightarrow>
          (case js_filter (mal_id_is_not characterId) fs of
             Inl e \<Rightarrow> showNotification FailedToRemove r1
           | Inr ys \<Rightarrow>
               if renders u (Arr ys)
               then showNotification RemovedFromFavorites (r1\<lparr>favorites := Arr ys\<rparr>)
               else showNotification FailedToRemove (r1\<lparr>favorites := Arr ys\<rparr>))
      | _ \<Rightarrow> showNotification FailedToRemove r1)"



section \<open>Notions used in the statements\<close>

text \<open>The requests of one list kind. Only the watchlist has an update request.\<close>

fun get_request :: "kind \<Rightarrow> request" where
  "get_request Watchlist = GetWatchlist"
| "get_request Readinglist = GetReadinglist"
| "get_request Favorites = GetFavorites"

fun add_request :: "kind \<Rightarrow> jsval \<Rightarrow> request" where
  "add_request Watchlist record = AddToWatchlist record"
| "add_request Readinglist record = AddToReadinglist record"
| "add_request Favorites record = AddToFavorites record"

fun remove_request :: "kind \<Rightarrow> jsval \<Rightarrow> request" where
  "remove_request Watchlist ident = RemoveFromWatchlist ident"
| "remove_request Readinglist ident = RemoveFromReadinglist ident"
| "remove_request Favorites ident = RemoveFromFavorites ident"

fun request_kind :: "request \<Rightarrow> kind" where
  "request_kind GetWatchlist = Watchlist"
| "request_kind (AddToWatchlist a) = Watchlist"
| "request_kind (RemoveFromWatchlist i) = Watchlist"
| "request_kind (UpdateWatchlist i u) = Watchlist"
| "request_kind GetReadinglist = Readinglist"
| "request_kind (AddToReadinglist a) = Readinglist"
| "request_kind (RemoveFromReadinglist i) = Readinglist"
| "request_kind GetFavorites = Favorites"
| "request_kind (AddToFavorites a) = Favorites"
| "request_kind (RemoveFromFavorites i) = Favorites"

text \<open>The collection that a get reads from the disk.\<close>

definition stored :: "platform \<Rightarrow> kind \<Rightarrow> disk \<Rightarrow> jsval" where
  "stored P k d = fst (getWatchlist P k d)"

text \<open>
  The external catalog ID of an entry: the value of its \<^verbatim>\<open>mal_id\<close> property when that is
  a primitive value (a number, in the catalog). An entry without the property, or a
  value that is not an entry, has none.
\<close>

fun primitive :: "jsval \<Rightarrow> bool" where
  "primitive Null = True"
| "primitive (Bool b) = True"
| "primitive (Num r) = True"
| "primitive (Str s) = True"
| "primitive _ = False"

definition catalog_id :: "jsval \<Rightarrow> jsval option" where
  "catalog_id e =
     (case get_prop e ''mal_id'' of
        Inl err \<Rightarrow> None
      | Inr v \<Rightarrow> if primitive v then Some v else None)"

text \<open>No two entries of a collection share a catalog ID.\<close>

definition unique_ids :: "jsval list \<Rightarrow> bool" where
  "unique_ids xs = distinct (List.map_filter catalog_id xs)"

fun unique_collection :: "jsval \<Rightarrow> bool" where
  "unique_collection (Arr xs) = unique_ids xs"
| "unique_collection _ = True"

text \<open>Whether the fields of an update leave \<^verbatim>\<open>mal_id\<close> alone.\<close>

fun keeps_mal_id :: "request \<Rightarrow> bool" where
  "keeps_mal_id (UpdateWatchlist ident updates) = (map_of (spread updates) ''mal_id'' = None)"
| "keeps_mal_id _ = True"

text \<open>The own property \<open>f\<close> of an entry, as \<^verbatim>\<open>{...entry}\<close> sees it.\<close>

definition field :: "jsval \<Rightarrow> string \<Rightarrow> jsval option" where
  "field e f = map_of (spread e) f"

text \<open>
  A disk on which every call of the file system succeeds: the data directory exists or
  can be made, and reading and writing work.
\<close>

definition healthy :: "disk \<Rightarrow> bool" where
  "healthy d \<longleftrightarrow> (dir_exists d \<or> mkdir_ok d) \<and> read_ok d \<and> write_ok d"

definition ready :: "disk \<Rightarrow> bool" where
  "ready d \<longleftrightarrow> dir_exists d \<and> read_ok d \<and> write_ok d"

text \<open>A value whose properties can be read: anything but \<^verbatim>\<open>undefined\<close> and \<^verbatim>\<open>null\<close>.\<close>

fun has_props :: "jsval \<Rightarrow> bool" where
  "has_props Undefined = False"
| "has_props Null = False"
| "has_props _ = True"

text \<open>The entry \<open>a\<close> passes the test \<^verbatim>\<open>a.mal_id === id\<close>.\<close>

definition has_id :: "jsval \<Rightarrow> jsval \<Rightarrow> bool" where
  "has_id ident a \<longleftrightarrow> mal_id_is ident a = Inr True"

text \<open>An object as JavaScript has it: no property name occurs twice.\<close>

fun distinct_props :: "jsval \<Rightarrow> bool" where
  "distinct_props (Obj kvs) = distinct (map fst kvs)"
| "distinct_props _ = True"

text \<open>The same add request, once for each clock reading in turn.\<close>

fun add_times :: "platform \<Rightarrow> kind \<Rightarrow> clock list \<Rightarrow> jsval \<Rightarrow> disk \<Rightarrow> disk" where
  "add_times P k [] record d = d"
| "add_times P k (clk # clks) record d =
     add_times P k clks record (snd (ipc_handle P clk (add_request k record) d))"

text \<open>The entry literal of each list kind.\<close>

fun entry_maker :: "kind \<Rightarrow> clock \<Rightarrow> jsval \<Rightarrow> error + jsval" where
  "entry_maker Watchlist = animeItem"
| "entry_maker Readinglist = mangaItem"
| "entry_maker Favorites = characterItem"

text \<open>A collection whose entries are objects as JavaScript has them.\<close>

fun proper_collection :: "jsval \<Rightarrow> bool" where
  "proper_collection (Arr xs) = list_all distinct_props xs"
| "proper_collection _ = True"

section \<open>Concrete disks and records for the examples\<close>

text \<open>A clock reading.\<close>

definition clock0 :: clock where
  "clock0 = \<lparr>now_ms = 1700, now_iso = ''2023-11-14T22:13:20.000Z''\<rparr>"


text \<open>
  A disk whose watchlist file holds the text \<^verbatim>\<open>{oops\<close>, which is not JSON (and which the
  codec above rejects as well).
\<close>

definition corrupt_disk :: disk where
  "corrupt_disk =
     \<lparr>dir_exists = True, files = (\<lambda>k. None)(Watchlist \<mapsto> [123, 111, 111, 112, 115]),
      mkdir_ok = True, read_ok = True, write_ok = True,
      write_truncates = False, error_log = []\<rparr>"

text \<open>A disk before the first start: no data directory, no file.\<close>

definition fresh_disk :: disk where
  "fresh_disk =
     \<lparr>dir_exists = False, files = (\<lambda>k. None),
      mkdir_ok = True, read_ok = True, write_ok = True,
      write_truncates = False, error_log = []\<rparr>"

text \<open>
  The entries \<^verbatim>\<open>{mal_id: 1}\<close> and \<^verbatim>\<open>{mal_id: 2}\<close>, and a disk whose watchlist file holds their
  array as the codec writes it.
\<close>

definition two_entries :: "jsval list" where
  "two_entries = [Obj [(''mal_id'', Num 1)], Obj [(''mal_id'', Num 2)]]"

definition two_disk :: disk where
  "two_disk =
     \<lparr>dir_exists = True,
      files = (\<lambda>k. None)(Watchlist \<mapsto> json_stringify demo_platform 2 (Arr two_entries)),
      mkdir_ok = True, read_ok = True, write_ok = True,
      write_truncates = False, error_log = []\<rparr>"

text \<open>The catalog record \<^verbatim>\<open>{mal_id: 5114, title: "X"}\<close>.\<close>

definition record5114 :: jsval where
  "record5114 = Obj [(''mal_id'', Num 5114), (''title'', Str ''X'')]"

text \<open>
  The disk with two entries, when reading fails, and when every write fails at the open.
\<close>

definition unreadable_disk :: disk where
  "unreadable_disk = two_disk\<lparr>read_ok := False\<rparr>"

definition unwritable_disk :: disk where
  "unwritable_disk = two_disk\<lparr>write_ok := False\<rparr>"

text \<open>The same disk, when every write fails after the open has emptied the file.\<close>

definition truncating_disk :: disk where
  "truncating_disk = two_disk\<lparr>write_ok := False, write_truncates := True\<rparr>"


text \<open>The watchlist entry that \<open>record5114\<close> becomes at \<open>clock0\<close>.\<close>

definition item5114 :: jsval where
  "item5114 = Obj
     [(''id'', Str ''1700''),
      (''mal_id'', Num 5114),
      (''title'', Str ''X''),
      (''image'', Undefined),
      (''episodes'', Num 0),
      (''score'', Num 0),
      (''episodes_watched'', Num 0),
      (''status'', Str ''planning''),
      (''rating'', Num 0),
      (''notes'', Str []),
      (''added_date'', Str ''2023-11-14T22:13:20.000Z'')]"







section \<open>The codec meets the contract\<close>

lemma length_json_norm_props: "length (json_norm_props kvs) \<le> length kvs"
  by (induction kvs) (auto split: if_splits)

lemma json_norm_elems_fix:
  "json_norm_elems xs = xs \<longleftrightarrow> (\<forall>x\<in>set xs. x \<noteq> Undefined \<and> json_norm x = x)"
  by (induction xs) auto

lemma json_norm_props_fix:
  "json_norm_props kvs = kvs \<longleftrightarrow> (\<forall>kv\<in>set kvs. snd kv \<noteq> Undefined \<and> json_norm (snd kv) = snd kv)"
proof (induction kvs)
  case Nil
  show ?case by simp
next
  case (Cons kv kvs)
  obtain k v where kv: "kv = (k, v)" by (cases kv)
  have "json_norm_props kvs \<noteq> (k, v) # kvs"
    using length_json_norm_props [of kvs] by (metis impossible_Cons)
  with Cons kv show ?case by auto
qed

lemma demo_run_append:
  "demo_run (ts @ us) st = (case demo_run ts st of None \<Rightarrow> None | Some st' \<Rightarrow> demo_run us st')"
  by (induction ts arbitrary: st) (auto split: option.splits)

lemma token_mod [simp]: "tag < 16 \<Longrightarrow> (16 * n + tag) mod 16 = (tag::nat)"
  by simp

lemma token_div [simp]: "tag < 16 \<Longrightarrow> (16 * n + tag) div 16 = (n::nat)"
  by simp

lemma demo_run_chars:
  "demo_run (map (\<lambda>c. 16 * of_char c + 3) s) st = Some (map Raw (rev (map of_char s)) @ st)"
  by (induction s arbitrary: st) (auto simp: demo_exec_def)

lemma pop_raws_all: "pop_raws (length cs) (map Raw (rev cs) @ st) acc = Some (cs @ acc, st)"
  by (induction cs arbitrary: acc rule: rev_induct) auto

lemma pop_vals_all: "pop_vals (length xs) (map Val (rev xs) @ st) acc = Some (xs @ acc, st)"
  by (induction xs arbitrary: acc rule: rev_induct) auto

lemma pop_props_all:
  "pop_props (length kvs) (concat (map (\<lambda>kv. [Val (snd kv), Val (Str (fst kv))]) (rev kvs)) @ st) acc
     = Some (kvs @ acc, st)"
  by (induction kvs arbitrary: acc rule: rev_induct) auto

lemma demo_run_string:
  "demo_run (map (\<lambda>c. 16 * of_char c + 3) s @ [16 * length s + 6]) st = Some (Val (Str s) # st)"
  using pop_raws_all [of "map of_char s" st "[]"]
  by (simp add: demo_run_append demo_run_chars demo_exec_def comp_def)

lemma demo_run_string_then:
  "demo_run ((map (\<lambda>c. 16 * of_char c + 3) s @ [16 * length s + 6]) @ us) st
     = demo_run us (Val (Str s) # st)"
  by (simp only: demo_run_append [of "_ @ [_]"] demo_run_string option.case)

lemma demo_run_num: "demo_run (demo_encode (Num r)) st = Some (Val (Num r) # st)"
proof -
  obtain a b where q: "quotient_of r = (a, b)" by (cases "quotient_of r")
  have b: "0 < b" using q by (rule quotient_of_denom_pos)
  have r: "r = of_int a / of_int b" using q by (rule quotient_of_div)
  show ?thesis
  proof (cases "a < 0")
    case True
    then have "- (of_nat (nat \<bar>a\<bar>) / of_nat (nat b)) = (of_int a / of_int b :: rat)"
      using b by simp
    with True q r show ?thesis by (simp add: demo_exec_def)
  next
    case False
    then have "of_nat (nat \<bar>a\<bar>) / of_nat (nat b) = (of_int a / of_int b :: rat)"
      using b by simp
    with False q r show ?thesis by (simp add: demo_exec_def)
  qed
qed

lemma demo_run_encode:
  "v \<noteq> Undefined \<Longrightarrow> json_norm v = v \<Longrightarrow> demo_run (demo_encode v) st = Some (Val v # st)"
  "json_norm_elems xs = xs \<Longrightarrow> demo_run (demo_encode_elems xs) st = Some (map Val (rev xs) @ st)"
  "json_norm_props kvs = kvs \<Longrightarrow>
     demo_run (demo_encode_props kvs) st
       = Some (concat (map (\<lambda>kv. [Val (snd kv), Val (Str (fst kv))]) (rev kvs)) @ st)"
proof (induction v and xs and kvs arbitrary: st and st and st
    rule: demo_encode_demo_encode_elems_demo_encode_props.induct)
  case 1
  then show ?case by simp
next
  case 2
  show ?case by (simp add: demo_exec_def)
next
  case (3 b)
  show ?case by (simp add: demo_exec_def)
next
  case (4 r)
  show ?case by (rule demo_run_num)
next
  case (5 s)
  show ?case using demo_run_string by simp
next
  case (6 xs)
  then show ?case
    using pop_vals_all [of xs st "[]"] by (simp add: demo_run_append demo_exec_def)
next
  case (7 kvs)
  then show ?case
    using pop_props_all [of kvs st "[]"] by (simp add: demo_run_append demo_exec_def)
next
  case 8
  show ?case by simp
next
  case (9 x xs)
  then show ?case by (simp add: demo_run_append split: if_splits)
next
  case 10
  show ?case by simp
next
  case (11 k v kvs)
  from 11(3) have "v \<noteq> Undefined" "json_norm v = v" "json_norm_props kvs = kvs"
    using json_norm_props_fix [of "(k, v) # kvs"] json_norm_props_fix [of kvs] by auto
  moreover have "demo_run (demo_encode_props ((k, v) # kvs)) st =
      demo_run (demo_encode v @ demo_encode_props kvs) (Val (Str k) # st)"
    by (simp only: demo_encode_props.simps demo_run_string_then)
  ultimately show ?case
    using 11(1,2) by (simp add: demo_run_append)
qed

lemma pop_raws_rest: "pop_raws n st acc = Some (cs, st') \<Longrightarrow> set st' \<subseteq> set st"
  by (induction n st acc rule: pop_raws.induct) auto

lemma pop_vals_rest:
  "pop_vals n st acc = Some (xs, st') \<Longrightarrow>
     set st' \<subseteq> set st \<and> set xs \<subseteq> set acc \<union> {v. Val v \<in> set st}"
  by (induction n st acc rule: pop_vals.induct) auto

lemma pop_props_rest:
  "pop_props n st acc = Some (kvs, st') \<Longrightarrow>
     set st' \<subseteq> set st \<and> snd ` set kvs \<subseteq> snd ` set acc \<union> {v. Val v \<in> set st}"
  by (induction n st acc rule: pop_props.induct) auto

lemma demo_exec_json:
  assumes "demo_exec tag n st = Some st'"
    and "\<forall>v. Val v \<in> set st \<longrightarrow> v \<noteq> Undefined \<and> json_norm v = v"
  shows "\<forall>v. Val v \<in> set st' \<longrightarrow> v \<noteq> Undefined \<and> json_norm v = v"
  using assms
  by (auto simp: demo_exec_def json_norm_elems_fix json_norm_props_fix subset_iff image_subset_iff
        split: if_splits list.splits item.splits option.splits
        dest!: pop_raws_rest pop_vals_rest pop_props_rest)

lemma demo_run_json:
  "demo_run ts st = Some st' \<Longrightarrow>
   \<forall>v. Val v \<in> set st \<longrightarrow> v \<noteq> Undefined \<and> json_norm v = v \<Longrightarrow>
   \<forall>v. Val v \<in> set st' \<longrightarrow> v \<noteq> Undefined \<and> json_norm v = v"
proof (induction ts arbitrary: st)
  case Nil
  then show ?case by simp
next
  case (Cons t ts)
  from Cons.prems(1) obtain st1 where
    e: "demo_exec (t mod 16) (t div 16) st = Some st1" and r: "demo_run ts st1 = Some st'"
    by (auto split: option.splits)
  from demo_exec_json [OF e Cons.prems(2)] Cons.IH [OF r] show ?case by blast
qed

lemma demo_parse_json: "demo_parse t = Some v \<Longrightarrow> json_norm v = v"
  using demo_run_json [of t "[]"]
  by (auto simp: demo_parse_def split: option.splits list.splits item.splits)

lemma js_trim_last: "\<not> is_js_space c \<Longrightarrow> js_trim (ts @ [c]) \<noteq> []"
  by (simp add: js_trim_def dropWhile_append3)

lemma array_token_no_space: "\<not> is_js_space (16 * n + 14)"
  unfolding is_js_space_def by (simp; presburger)

lemma json_norm_Undefined [simp]: "json_norm x = Undefined \<longleftrightarrow> x = Undefined"
  by (cases x) auto

lemma json_norm_idem:
  "json_norm (json_norm v) = json_norm v"
  "json_norm_elems (json_norm_elems xs) = json_norm_elems xs"
  "json_norm_props (json_norm_props kvs) = json_norm_props kvs"
  by (induction v and xs and kvs rule: json_norm_json_norm_elems_json_norm_props.induct) auto

lemma demo_roundtrip:
  "demo_parse (demo_encode (json_norm (Arr xs))) = Some (json_norm (Arr xs))"
  using demo_run_encode(1) [of "json_norm (Arr xs)" "[]"]
  by (simp add: demo_parse_def json_norm_idem del: demo_encode.simps)

lemma demo_not_blank: "js_trim (demo_encode (json_norm (Arr xs))) \<noteq> []"
  by (simp add: js_trim_last array_token_no_space)

lemma demo_contract: "json_contract demo_platform"
  unfolding json_contract_def demo_platform_def
  using demo_roundtrip demo_parse_json demo_not_blank
  by (auto simp del: json_norm.simps demo_encode.simps)

section \<open>Basic facts about the store\<close>

lemma console_error_fields [simp]:
  "dir_exists (console_error l d) = dir_exists d"
  "files (console_error l d) = files d"
  "mkdir_ok (console_error l d) = mkdir_ok d"
  "read_ok (console_error l d) = read_ok d"
  "write_ok (console_error l d) = write_ok d"
  "write_truncates (console_error l d) = write_truncates d"
  "error_log (console_error l d) = error_log d @ [l]"
  by (simp_all add: console_error_def)

lemma log_and_rethrow_simps [simp]:
  "log_and_rethrow line (Inl e, d) = (Inl e, console_error (line e) d)"
  "log_and_rethrow line (Inr v, d) = (Inr v, d)"
  by (simp_all add: log_and_rethrow_def)

lemma log_and_rethrow_fields [simp]:
  "fst (log_and_rethrow line r) = fst r"
  "dir_exists (snd (log_and_rethrow line r)) = dir_exists (snd r)"
  "files (snd (log_and_rethrow line r)) = files (snd r)"
  "mkdir_ok (snd (log_and_rethrow line r)) = mkdir_ok (snd r)"
  "read_ok (snd (log_and_rethrow line r)) = read_ok (snd r)"
  "write_ok (snd (log_and_rethrow line r)) = write_ok (snd r)"
  "write_truncates (snd (log_and_rethrow line r)) = write_truncates (snd r)"
  by (cases r; cases "fst r"; simp)+


lemma with_manager_present:
  "dir_exists d \<Longrightarrow> files d k \<noteq> None \<Longrightarrow> with_manager P k m d = m d"
  by (auto simp: with_manager_def ensureDataDirectory_def)

lemma ipc_get:
  "ipc_handle P clk (get_request k) d
     = with_manager P k (\<lambda>d. returning (getWatchlist P k d)) d"
  by (cases k) (simp_all add: getReadingList_def getFavorites_def)

lemma contract_roundtrip:
  "json_contract P \<Longrightarrow> json_parse P (json_stringify P n (Arr xs)) = Some (json_norm (Arr xs))"
  by (simp add: json_contract_def)

lemma contract_not_blank:
  "json_contract P \<Longrightarrow> js_trim (json_stringify P n (Arr xs)) \<noteq> []"
  by (simp add: json_contract_def)

lemma contract_parsed:
  "json_contract P \<Longrightarrow> json_parse P t = Some v \<Longrightarrow> json_norm v = v"
  by (simp add: json_contract_def)

lemma getWatchlist_missing: "files d k = None \<Longrightarrow> getWatchlist P k d = (Arr [], d)"
  by (simp add: getWatchlist_def)

lemma getWatchlist_written:
  assumes "json_contract P" and "files d k = Some (json_stringify P n (Arr xs))" and "read_ok d"
  shows "getWatchlist P k d = (json_norm (Arr xs), d)"
  using assms
  by (simp add: getWatchlist_def contract_roundtrip contract_not_blank)

lemma getWatchlist_empty_written:
  assumes "json_contract P" and "files d k = Some (json_stringify P n (Arr []))"
  shows "fst (getWatchlist P k d) = Arr []"
proof (cases "read_ok d")
  case True
  with assms show ?thesis by (simp add: getWatchlist_written)
next
  case False
  with assms show ?thesis by (simp add: getWatchlist_def)
qed

lemma getWatchlist_corrupt:
  assumes "files d k = Some t" and "js_trim t \<noteq> []" and "json_parse P t = None"
  shows "getWatchlist P k d
           = (Arr [], snd (saveData P k (Arr [])
                (console_error (ErrorReading k (if read_ok d then SyntaxError else IOError)) d)))"
  using assms by (simp add: getWatchlist_def)

lemma saveData_files:
  "files (snd (saveData P k v d)) k =
     (if dir_exists d \<and> write_ok d then Some (json_stringify P 2 v)
      else if dir_exists d \<and> write_truncates d then Some []
      else files d k)"
  by (simp add: saveData_def)

lemma saveData_flags [simp]:
  "dir_exists (snd (saveData P k v d)) = dir_exists d"
  "read_ok (snd (saveData P k v d)) = read_ok d"
  "write_ok (snd (saveData P k v d)) = write_ok d"
  "mkdir_ok (snd (saveData P k v d)) = mkdir_ok d"
  "write_truncates (snd (saveData P k v d)) = write_truncates d"
  by (simp_all add: saveData_def)

lemma saveData_log:
  "error_log (snd (saveData P k v d))
     = error_log d @ (if dir_exists d \<and> write_ok d then [] else [ErrorSaving k IOError])"
  by (simp add: saveData_def)

lemma js_trim_empty [simp]: "js_trim [] = []"
  by (simp add: js_trim_def)

lemma getWatchlist_files:
  "files (snd (getWatchlist P k d)) k = files d k
   \<or> files (snd (getWatchlist P k d)) k
       = Some (if write_ok d then json_stringify P 2 (Arr []) else [])"
  by (auto simp: getWatchlist_def saveData_def split: option.splits sum.splits)

lemma demo_parse_garbage: "demo_parse [123, 111, 111, 112, 115] = None"
  by (simp add: demo_parse_def demo_exec_def)

lemma js_trim_garbage: "js_trim [123, 111, 111, 112, 115] = [123, 111, 111, 112, 115]"
  by (simp add: js_trim_def is_js_space_def)

lemma demo_stringify_empty: "json_stringify demo_platform n (Arr []) = [14]"
  by (simp add: demo_platform_def)

lemma stored_missing: "files d k = None \<Longrightarrow> stored P k d = Arr []"
  by (simp add: stored_def getWatchlist_missing)

lemma getWatchlist_cases:
  "getWatchlist P k d = (stored P k d, d)
   \<or> (stored P k d = Arr []
      \<and> (\<exists>e. getWatchlist P k d
               = (Arr [], snd (saveData P k (Arr []) (console_error (ErrorReading k e) d)))))"
  by (auto simp: stored_def getWatchlist_def split: option.splits sum.splits)

lemma stored_error_log [simp]: "stored P k (d\<lparr>error_log := l\<rparr>) = stored P k d"
  by (auto simp: stored_def getWatchlist_def split: option.splits sum.splits)

lemma stored_console_error [simp]: "stored P k (console_error l d) = stored P k d"
  by (simp add: console_error_def)

lemma stored_normal:
  assumes "json_contract P" and "stored P k d = Arr xs"
  shows "json_norm_elems xs = xs"
proof -
  have "json_norm (stored P k d) = stored P k d"
    using contract_parsed [OF assms(1)]
    by (auto simp: stored_def getWatchlist_def split: option.splits sum.splits)
  with assms(2) show ?thesis by simp
qed

lemma saveData_ready:
  "ready d \<Longrightarrow> saveData P k v d = (Inr (), d\<lparr>files := (files d)(k \<mapsto> json_stringify P 2 v)\<rparr>)"
  by (simp add: saveData_def ready_def)

lemma ready_written [simp]: "ready (d\<lparr>files := f\<rparr>) = ready d"
  by (simp add: ready_def)

lemma ready_console_error [simp]: "ready (console_error l d) = ready d"
  by (simp add: ready_def)

lemma stored_written:
  assumes "json_contract P" and "ready d"
  shows "stored P k (d\<lparr>files := (files d)(k \<mapsto> json_stringify P n (Arr ys))\<rparr>) = json_norm (Arr ys)"
  using assms by (simp add: stored_def getWatchlist_written ready_def)

lemma getWatchlist_ready:
  assumes "json_contract P" and "ready d" and "getWatchlist P k d = (v, d1)"
  shows "v = stored P k d \<and> ready d1 \<and> stored P k d1 = stored P k d
       \<and> (\<forall>k'. k' \<noteq> k \<longrightarrow> files d1 k' = files d k')"
proof -
  from getWatchlist_cases [of P k d] assms(3)
  consider "d1 = d" "v = stored P k d"
    | e where "v = Arr []" "stored P k d = Arr []"
        "d1 = snd (saveData P k (Arr []) (console_error (ErrorReading k e) d))"
    by auto
  then show ?thesis
  proof cases
    case 1
    with assms show ?thesis by simp
  next
    case 2
    have r: "ready (console_error (ErrorReading k e) d)" using assms(2) by simp
    from 2 show ?thesis
      using stored_written [OF assms(1) r, of k 2 "[]"] r by (simp add: saveData_ready)
  qed
qed

lemma ensure_healthy:
  assumes "json_contract P" and "healthy d"
  shows "\<exists>d0. ensureDataDirectory P k d = (Inr (), d0) \<and> ready d0
           \<and> stored P k d0 = stored P k d
           \<and> (\<forall>k'. k' \<noteq> k \<longrightarrow> files d0 k' = files d k')"
proof -
  let ?d1 = "if dir_exists d then d else d\<lparr>dir_exists := True\<rparr>"
  have r: "ready ?d1" using assms(2) by (auto simp: healthy_def ready_def)
  have s: "stored P k ?d1 = stored P k d"
    by (auto simp: stored_def getWatchlist_def saveData_def split: option.splits sum.splits)
  show ?thesis
  proof (cases "files d k")
    case None
    then have "ensureDataDirectory P k d
        = (Inr (), ?d1\<lparr>files := (files ?d1)(k \<mapsto> json_stringify P 2 (Arr []))\<rparr>)"
      using assms(2) r by (auto simp: ensureDataDirectory_def healthy_def saveData_ready Let_def)
    moreover have "stored P k (?d1\<lparr>files := (files ?d1)(k \<mapsto> json_stringify P 2 (Arr []))\<rparr>) = Arr []"
      using stored_written [OF assms(1) r, of k 2 "[]"] by simp
    ultimately show ?thesis
      using r None by (auto simp: stored_missing)
  next
    case (Some t)
    then have "ensureDataDirectory P k d = (Inr (), ?d1)"
      using assms(2) by (auto simp: ensureDataDirectory_def healthy_def)
    with r s show ?thesis by auto
  qed
qed

lemma ready_healthy: "ready d \<Longrightarrow> healthy d"
  by (simp add: ready_def healthy_def)

lemma mal_id_is_props:
  "has_props a \<Longrightarrow> mal_id_is ident a = Inr (has_id ident a)"
  by (cases a) (auto simp: mal_id_is_def has_id_def)

lemma mal_id_is_not_props:
  "has_props a \<Longrightarrow> mal_id_is_not ident a = Inr (\<not> has_id ident a)"
  by (cases a) (auto simp: mal_id_is_not_def mal_id_is_def has_id_def)

lemma js_find_props:
  "list_all has_props xs \<Longrightarrow>
   js_find (mal_id_is ident) xs
     = Inr (case List.find (has_id ident) xs of None \<Rightarrow> Undefined | Some x \<Rightarrow> x)"
  by (induction xs) (auto simp: mal_id_is_props)

lemma js_filter_props:
  "list_all has_props xs \<Longrightarrow>
   js_filter (mal_id_is_not ident) xs = Inr (filter (\<lambda>a. \<not> has_id ident a) xs)"
  by (induction xs) (auto simp: mal_id_is_not_props)

lemma json_norm_elems_filter:
  "json_norm_elems xs = xs \<Longrightarrow> json_norm_elems (filter p xs) = filter p xs"
  by (simp add: json_norm_elems_fix)

lemma with_manager_healthy:
  assumes "json_contract P" and "healthy d"
  shows "\<exists>d0. with_manager P k m d = m d0 \<and> ready d0 \<and> stored P k d0 = stored P k d
           \<and> (\<forall>k'. k' \<noteq> k \<longrightarrow> files d0 k' = files d k')"
  using ensure_healthy [OF assms, of k] by (auto simp: with_manager_def)

lemma handle_get:
  assumes "json_contract P" and "healthy d"
  shows "\<exists>d1. ipc_handle P clk (get_request k) d = (Inr (stored P k d), d1)
           \<and> ready d1 \<and> stored P k d1 = stored P k d"
proof -
  from with_manager_healthy [OF assms, of k "\<lambda>d. returning (getWatchlist P k d)"]
  obtain d0 where w: "ipc_handle P clk (get_request k) d = returning (getWatchlist P k d0)"
    and r: "ready d0" and s: "stored P k d0 = stored P k d"
    by (auto simp: ipc_get)
  obtain v d1 where g: "getWatchlist P k d0 = (v, d1)" by (cases "getWatchlist P k d0")
  from getWatchlist_ready [OF assms(1) r g] w g s show ?thesis
    by (simp add: returning_def)
qed

lemma remove_ready:
  assumes "json_contract P" and "ready d" and "stored P k d = Arr xs" and "list_all has_props xs"
  shows "\<exists>d2. removeFromWatchlist P k ident d
             = (Inr (Arr (filter (\<lambda>a. \<not> has_id ident a) xs)), d2)
           \<and> ready d2 \<and> stored P k d2 = Arr (filter (\<lambda>a. \<not> has_id ident a) xs)"
proof -
  obtain v d1 where g: "getWatchlist P k d = (v, d1)" by (cases "getWatchlist P k d")
  from getWatchlist_ready [OF assms(1,2) g] assms(3)
  have v: "v = Arr xs" and r1: "ready d1" by simp_all
  have n: "json_norm_elems (filter (\<lambda>a. \<not> has_id ident a) xs) = filter (\<lambda>a. \<not> has_id ident a) xs"
    using stored_normal [OF assms(1,3)] by (rule json_norm_elems_filter)
  show ?thesis
    using g v r1 assms(4) n stored_written [OF assms(1) r1, of k 2 "filter (\<lambda>a. \<not> has_id ident a) xs"]
    by (simp add: removeFromWatchlist_def js_find_props js_filter_props saveData_ready)
qed

lemma ipc_remove:
  "ipc_handle P clk (remove_request k ident) d
     = with_manager P k (removeFromWatchlist P k ident) d"
  by (cases k) (simp_all add: removeFromReadingList_def removeFromFavorites_def)

lemma handle_remove:
  assumes "json_contract P" and "healthy d" and "stored P k d = Arr xs" and "list_all has_props xs"
  shows "\<exists>d2. ipc_handle P clk (remove_request k ident) d
             = (Inr (Arr (filter (\<lambda>a. \<not> has_id ident a) xs)), d2)
           \<and> ready d2 \<and> stored P k d2 = Arr (filter (\<lambda>a. \<not> has_id ident a) xs)"
proof -
  from with_manager_healthy [OF assms(1,2), of k "removeFromWatchlist P k ident"]
  obtain d0 where w: "ipc_handle P clk (remove_request k ident) d = removeFromWatchlist P k ident d0"
    and r: "ready d0" and s: "stored P k d0 = Arr xs"
    using assms(3) by (auto simp: ipc_remove)
  from remove_ready [OF assms(1) r s assms(4), of ident] w show ?thesis by simp
qed

lemma stored_two_disk: "stored demo_platform Watchlist two_disk = Arr two_entries"
proof -
  have "getWatchlist demo_platform Watchlist two_disk = (json_norm (Arr two_entries), two_disk)"
    by (rule getWatchlist_written [OF demo_contract, where n = 2]) (simp_all add: two_disk_def)
  then show ?thesis by (simp add: stored_def two_entries_def)
qed

lemma healthy_two_disk: "healthy two_disk"
  by (simp add: healthy_def two_disk_def)

lemma mal_id_matches_eq:
  "get_prop record ''mal_id'' = Inr p \<Longrightarrow> mal_id_matches record = mal_id_is p"
  by (rule ext) (simp add: mal_id_matches_def mal_id_is_def split: sum.splits)

lemma ipc_add:
  "ipc_handle P clk (add_request k record) d
     = with_manager P k (add_entry (entry_maker k) P k clk record) d"
  by (cases k) (simp_all add: addToWatchlist_def addToReadingList_def addToFavorites_def)

lemma entry_maker_error:
  "get_prop record ''mal_id'' = Inl e \<Longrightarrow> entry_maker k clk record = Inl e"
  by (cases k) (simp_all add: animeItem_def mangaItem_def characterItem_def)

lemma entry_maker_shape:
  assumes "get_prop record ''mal_id'' = Inr p"
  shows "\<exists>kvs. entry_maker k clk record
           = Inr (Obj ((''id'', Str (show_nat (now_ms clk))) # (''mal_id'', p) # kvs))
         \<and> distinct (map fst kvs) \<and> ''id'' \<notin> fst ` set kvs \<and> ''mal_id'' \<notin> fst ` set kvs"
  using assms by (cases k) (simp_all add: animeItem_def mangaItem_def characterItem_def)

lemma primitive_norm: "primitive p \<Longrightarrow> json_norm p = p \<and> p \<noteq> Undefined"
  by (cases p) simp_all

lemma strict_eq_primitive: "primitive p \<Longrightarrow> strict_eq v p \<longleftrightarrow> v = p"
  by (cases p; cases v) auto

lemma has_id_primitive:
  "primitive p \<Longrightarrow> has_id p a \<longleftrightarrow> catalog_id a = Some p"
  by (cases a)
     (auto simp: has_id_def mal_id_is_def catalog_id_def strict_eq_primitive split: option.splits)

lemma js_find_result:
  "js_find (mal_id_is p) xs = Inr f \<Longrightarrow>
     (f \<in> set xs \<and> has_id p f) \<or> (f = Undefined \<and> (\<forall>x\<in>set xs. \<not> has_id p x))"
  by (induction xs) (auto simp: has_id_def split: sum.splits if_splits)

lemma has_id_truthy: "primitive p \<Longrightarrow> has_id p a \<Longrightarrow> truthy a"
  by (cases a) (auto simp: has_id_def mal_id_is_def strict_eq_primitive)

lemma find_has_id:
  "list_ex q xs \<Longrightarrow> \<exists>x. List.find q xs = Some x \<and> q x"
  by (induction xs) auto

lemma json_norm_elems_append:
  "json_norm_elems (xs @ ys) = json_norm_elems xs @ json_norm_elems ys"
  by (induction xs) auto

lemma add_ready:
  assumes "json_contract P" and "ready d" and "stored P k d = Arr xs"
    and "list_all has_props xs"
    and "get_prop record ''mal_id'' = Inr p" and "primitive p"
    and "mk clk record = Inr item" and "item \<noteq> Undefined"
  shows "\<exists>d2. add_entry mk P k clk record d
             = (Inr (Arr (if list_ex (has_id p) xs then xs else xs @ [item])), d2)
           \<and> ready d2
           \<and> stored P k d2 = Arr (if list_ex (has_id p) xs then xs else xs @ [json_norm item])"
proof -
  obtain v d1 where g: "getWatchlist P k d = (v, d1)" by (cases "getWatchlist P k d")
  from getWatchlist_ready [OF assms(1,2) g] assms(3)
  have v: "v = Arr xs" and r1: "ready d1" and s1: "stored P k d1 = Arr xs" by simp_all
  have n: "json_norm_elems xs = xs" using stored_normal [OF assms(1,3)] .
  let ?found = "case List.find (has_id p) xs of None \<Rightarrow> Undefined | Some x \<Rightarrow> x"
  have f: "js_find (mal_id_matches record) xs = Inr ?found"
    using assms(4,5) by (simp add: mal_id_matches_eq js_find_props)
  show ?thesis
  proof (cases "list_ex (has_id p) xs")
    case True
    then obtain x where "List.find (has_id p) xs = Some x" "has_id p x"
      using find_has_id by blast
    then have "truthy ?found" using assms(6) by (simp add: has_id_truthy)
    with True g v r1 s1 f assms(7) show ?thesis by (simp add: add_entry_def)
  next
    case False
    then have "List.find (has_id p) xs = None" by (simp add: find_None_iff list_ex_iff)
    then have "\<not> truthy ?found" by simp
    with False g v r1 f assms(7,8) n
      stored_written [OF assms(1) r1, of k 2 "xs @ [item]"]
    show ?thesis by (simp add: add_entry_def saveData_ready json_norm_elems_append)
  qed
qed

lemma handle_add:
  assumes "json_contract P" and "healthy d" and "stored P k d = Arr xs"
    and "list_all has_props xs"
    and "get_prop record ''mal_id'' = Inr p" and "primitive p"
  shows "\<exists>d2 item. entry_maker k clk record = Inr item
           \<and> ipc_handle P clk (add_request k record) d
               = (Inr (Arr (if list_ex (has_id p) xs then xs else xs @ [item])), d2)
           \<and> ready d2
           \<and> stored P k d2 = Arr (if list_ex (has_id p) xs then xs else xs @ [json_norm item])
           \<and> catalog_id (json_norm item) = Some p \<and> has_props (json_norm item)"
proof -
  from entry_maker_shape [OF assms(5), of k clk]
  obtain kvs where m: "entry_maker k clk record
      = Inr (Obj ((''id'', Str (show_nat (now_ms clk))) # (''mal_id'', p) # kvs))"
    by blast
  let ?item = "Obj ((''id'', Str (show_nat (now_ms clk))) # (''mal_id'', p) # kvs)"
  from with_manager_healthy [OF assms(1,2), of k "add_entry (entry_maker k) P k clk record"]
  obtain d0 where w: "ipc_handle P clk (add_request k record) d
        = add_entry (entry_maker k) P k clk record d0"
    and r: "ready d0" and s: "stored P k d0 = Arr xs"
    using assms(3) by (auto simp: ipc_add)
  have c: "catalog_id (json_norm ?item) = Some p \<and> has_props (json_norm ?item)"
    using primitive_norm [OF assms(6)] assms(6) by (simp add: catalog_id_def)
  from add_ready [where mk = "entry_maker k", OF assms(1) r s assms(4,5,6) m] w m c
  show ?thesis by auto
qed

lemma set_map_filter: "y \<in> set (List.map_filter f xs) \<longleftrightarrow> (\<exists>x\<in>set xs. f x = Some y)"
  by (induction xs) (auto simp: List.map_filter_simps split: option.splits)

lemma unique_ids_count:
  "unique_ids xs \<Longrightarrow> length (filter (\<lambda>e. catalog_id e = Some p) xs) \<le> 1"
proof (induction xs)
  case Nil
  show ?case by simp
next
  case (Cons x xs)
  show ?case
  proof (cases "catalog_id x")
    case None
    with Cons show ?thesis by (simp add: unique_ids_def List.map_filter_simps)
  next
    case (Some q)
    with Cons.prems have d: "q \<notin> set (List.map_filter catalog_id xs)" and u: "unique_ids xs"
      by (simp_all add: unique_ids_def List.map_filter_simps)
    show ?thesis
    proof (cases "q = p")
      case True
      with d have "filter (\<lambda>e. catalog_id e = Some p) xs = []"
        by (auto simp: filter_empty_conv set_map_filter)
      with Some True show ?thesis by simp
    next
      case False
      with Some Cons.IH [OF u] show ?thesis by simp
    qed
  qed
qed

lemma list_ex_count:
  "primitive p \<Longrightarrow> list_ex (has_id p) xs \<longleftrightarrow> 0 < length (filter (\<lambda>e. catalog_id e = Some p) xs)"
  by (simp add: list_ex_iff has_id_primitive length_greater_0_conv filter_empty_conv)

lemma add_keeps_one:
  assumes "json_contract P" and "get_prop record ''mal_id'' = Inr p" and "primitive p"
    and "ready d" and "stored P k d = Arr ys" and "list_all has_props ys"
    and "length (filter (\<lambda>e. catalog_id e = Some p) ys) = 1"
  shows "ready (snd (ipc_handle P clk (add_request k record) d))
       \<and> stored P k (snd (ipc_handle P clk (add_request k record) d)) = Arr ys"
  using handle_add [OF assms(1) ready_healthy [OF assms(4)] assms(5,6,2,3), of clk]
    list_ex_count [OF assms(3), of ys] assms(7)
  by auto

lemma add_times_keeps_one:
  assumes "json_contract P" and "get_prop record ''mal_id'' = Inr p" and "primitive p"
    and "list_all has_props ys"
    and "length (filter (\<lambda>e. catalog_id e = Some p) ys) = 1"
  shows "ready d \<Longrightarrow> stored P k d = Arr ys \<Longrightarrow>
         ready (add_times P k clks record d) \<and> stored P k (add_times P k clks record d) = Arr ys"
proof (induction clks arbitrary: d)
  case Nil
  then show ?case by simp
next
  case (Cons clk clks)
  from add_keeps_one [OF assms(1,2,3) Cons.prems(1,2) assms(4,5), of clk]
  show ?case by (simp add: Cons.IH)
qed

lemma show_nat_1700: "show_nat 1700 = ''1700''"
  by code_simp

lemma unique_two_entries: "unique_ids two_entries"
  by (simp add: unique_ids_def two_entries_def List.map_filter_simps catalog_id_def)

lemma healthy_fresh_disk: "healthy fresh_disk"
  by (simp add: healthy_def fresh_disk_def)

lemma stored_fresh_disk: "stored P k fresh_disk = Arr []"
  by (simp add: stored_missing fresh_disk_def)

lemma js_findIndex_first:
  assumes "list_all has_props pre" and "list_all (\<lambda>a. \<not> has_id ident a) pre" and "has_id ident e"
  shows "js_findIndex (mal_id_is ident) (pre @ e # post) = Inr (Some (length pre))"
  using assms
proof (induction pre)
  case Nil
  then show ?case by (simp add: has_id_def)
next
  case (Cons a pre)
  then show ?case by (simp add: mal_id_is_props)
qed

lemma js_findIndex_none:
  assumes "list_all has_props xs" and "list_all (\<lambda>a. \<not> has_id ident a) xs"
  shows "js_findIndex (mal_id_is ident) xs = Inr None"
  using assms by (induction xs) (simp_all add: mal_id_is_props)

lemma map_of_set_prop: "map_of (set_prop k v kvs) = (map_of kvs)(k \<mapsto> v)"
  by (induction kvs) (auto simp: fun_eq_iff)

lemma map_of_fold_set_prop:
  "map_of (fold (\<lambda>(k, v). set_prop k v) kvs acc) = map_of acc ++ map_of (rev kvs)"
proof (induction kvs arbitrary: acc)
  case Nil
  show ?case by simp
next
  case (Cons kv kvs)
  obtain k v where kv: "kv = (k, v)" by (cases kv)
  show ?case
    by (simp add: kv Cons.IH map_of_set_prop fun_eq_iff map_add_def split: option.splits)
qed

lemma distinct_map_of_rev: "distinct (map fst kvs) \<Longrightarrow> map_of (rev kvs) = map_of kvs"
proof (induction kvs)
  case Nil
  show ?case by simp
next
  case (Cons kv kvs)
  obtain k v where kv: "kv = (k, v)" by (cases kv)
  from Cons.prems kv have "map_of kvs k = None"
    by (simp add: map_of_eq_None_iff)
  with Cons kv show ?case
    by (auto simp: fun_eq_iff map_add_def split: option.splits)
qed

lemma field_spread_merge:
  assumes "distinct (map fst (spread e))" and "distinct (map fst (spread u))"
  shows "field (spread_merge e u) f = (case field u f of Some v \<Rightarrow> Some v | None \<Rightarrow> field e f)"
  using assms
  by (simp add: field_def spread_merge_def map_of_fold_set_prop distinct_map_of_rev map_add_def
      split: option.splits)

lemma ipc_update:
  "ipc_handle P clk (UpdateWatchlist ident updates) d
     = with_manager P Watchlist (updateWatchlist P Watchlist ident updates) d"
  by simp

lemma update_found:
  assumes "json_contract P" and "ready d" and "stored P k d = Arr (pre @ e # post)"
    and "list_all has_props pre" and "list_all (\<lambda>a. \<not> has_id ident a) pre" and "has_id ident e"
  shows "\<exists>d2. updateWatchlist P k ident updates d
             = (Inr (Arr (pre @ spread_merge e updates # post)), d2)
           \<and> ready d2
           \<and> files d2 k = Some (json_stringify P 2 (Arr (pre @ spread_merge e updates # post)))
           \<and> stored P k d2 = json_norm (Arr (pre @ spread_merge e updates # post))"
proof -
  obtain v d1 where g: "getWatchlist P k d = (v, d1)" by (cases "getWatchlist P k d")
  from getWatchlist_ready [OF assms(1,2) g] assms(3)
  have v: "v = Arr (pre @ e # post)" and r1: "ready d1" by simp_all
  show ?thesis
    using g v r1 js_findIndex_first [OF assms(4,5,6), of post]
      stored_written [OF assms(1) r1, of k 2 "pre @ spread_merge e updates # post"]
    by (simp add: updateWatchlist_def saveData_ready)
qed

lemma update_absent:
  assumes "stored P k d = Arr xs"
    and "list_all has_props xs" and "list_all (\<lambda>a. \<not> has_id ident a) xs"
  shows "updateWatchlist P k ident updates d = returning (getWatchlist P k d)"
proof -
  obtain v d1 where g: "getWatchlist P k d = (v, d1)" by (cases "getWatchlist P k d")
  then have "v = Arr xs" using assms(1) by (simp add: stored_def)
  with g js_findIndex_none [OF assms(2,3)] show ?thesis
    by (simp add: updateWatchlist_def returning_def)
qed

section \<open>The uniqueness invariant: supporting facts\<close>

lemma stored_dir [simp]: "stored P k (d\<lparr>dir_exists := b\<rparr>) = stored P k d"
  by (auto simp: stored_def getWatchlist_def saveData_def split: option.splits sum.splits)

lemma stored_after_write:
  assumes "json_contract P"
  shows "stored P k (d\<lparr>files := (files d)(k \<mapsto> json_stringify P n (Arr ys))\<rparr>)
           = (if read_ok d then json_norm (Arr ys) else Arr [])"
proof (cases "read_ok d")
  case True
  then show ?thesis using assms by (simp add: stored_def getWatchlist_written)
next
  case False
  then show ?thesis by (simp add: stored_def getWatchlist_def)
qed

lemma stored_emptied [simp]: "stored P k (d\<lparr>files := (files d)(k \<mapsto> [])\<rparr>) = Arr []"
  by (simp add: stored_def getWatchlist_def saveData_def)

lemma saveData_any:
  assumes "json_contract P" and "saveData P k (Arr ys) d = (r, d2)"
  shows "(r = Inl IOError \<and> (stored P k d2 = stored P k d \<or> stored P k d2 = Arr []))
       \<or> (r = Inr () \<and> stored P k d2 = (if read_ok d then json_norm (Arr ys) else Arr []))"
proof (cases "dir_exists d \<and> write_ok d")
  case True
  with assms(2) stored_after_write [OF assms(1), of k d 2 ys] show ?thesis
    by (auto simp: saveData_def)
next
  case False
  with assms(2) show ?thesis
    by (cases "dir_exists d \<and> write_truncates d") (auto simp: saveData_def)
qed

lemma getWatchlist_any:
  assumes "json_contract P" and "getWatchlist P k d = (v, d1)"
  shows "v = stored P k d \<and> stored P k d1 = stored P k d"
proof -
  from getWatchlist_cases [of P k d] assms(2)
  consider "d1 = d" "v = stored P k d"
    | e where "v = Arr []" "stored P k d = Arr []"
        "d1 = snd (saveData P k (Arr []) (console_error (ErrorReading k e) d))"
    by auto
  then show ?thesis
  proof cases
    case 1
    then show ?thesis by simp
  next
    case 2
    let ?c = "console_error (ErrorReading k e) d"
    obtain r where "saveData P k (Arr []) ?c = (r, d1)"
      using 2(3) by (cases "saveData P k (Arr []) ?c") simp
    from saveData_any [OF assms(1) this] 2 show ?thesis by (auto split: if_splits)
  qed
qed

lemma ensure_any:
  assumes "json_contract P" and "ensureDataDirectory P k d = (r, d0)"
  shows "stored P k d0 = stored P k d"
proof (cases "\<not> dir_exists d \<and> \<not> mkdir_ok d")
  case True
  with assms(2) show ?thesis by (simp add: ensureDataDirectory_def)
next
  case False
  let ?d1 = "if dir_exists d then d else d\<lparr>dir_exists := True\<rparr>"
  have s1: "stored P k ?d1 = stored P k d" by simp
  show ?thesis
  proof (cases "files d k")
    case None
    then have m: "stored P k d = Arr []" by (simp add: stored_missing)
    obtain r1 d2 where sv: "saveData P k (Arr []) ?d1 = (r1, d2)"
      by (cases "saveData P k (Arr []) ?d1")
    from None False assms(2) sv have "d0 = d2"
      by (auto simp: ensureDataDirectory_def Let_def split: if_splits)
    with saveData_any [OF assms(1) sv] s1 m show ?thesis by (auto split: if_splits)
  next
    case (Some t)
    with False assms(2) have "d0 = ?d1"
      by (auto simp: ensureDataDirectory_def Let_def split: if_splits)
    with s1 show ?thesis by simp
  qed
qed

lemma with_manager_any:
  assumes "json_contract P"
  shows "(\<exists>e. with_manager P k m d = (Inl e, d))
       \<or> (\<exists>d0. with_manager P k m d = m d0 \<and> stored P k d0 = stored P k d)"
proof -
  obtain r d0 where e: "ensureDataDirectory P k d = (r, d0)"
    by (cases "ensureDataDirectory P k d")
  show ?thesis
  proof (cases r)
    case (Inl err)
    with e have "d0 = d" by (auto simp: ensureDataDirectory_def Let_def split: if_splits)
    with e Inl show ?thesis by (simp add: with_manager_def)
  next
    case (Inr u)
    with e have "with_manager P k m d = m d0" by (simp add: with_manager_def)
    with ensure_any [OF assms e] show ?thesis by blast
  qed
qed

lemma map_of_json_norm_props:
  "distinct (map fst kvs) \<Longrightarrow>
   map_of (json_norm_props kvs) k
     = (case map_of kvs k of
          None \<Rightarrow> None
        | Some v \<Rightarrow> if v = Undefined then None else Some (json_norm v))"
proof (induction kvs)
  case Nil
  show ?case by simp
next
  case (Cons kv kvs)
  obtain k' v' where kv: "kv = (k', v')" by (cases kv)
  from Cons.prems kv have "map_of kvs k' = None" by (simp add: map_of_eq_None_iff)
  with Cons kv show ?case by (auto split: option.splits)
qed

lemma fst_json_norm_props: "(k, v) \<in> set (json_norm_props kvs) \<Longrightarrow> k \<in> fst ` set kvs"
  by (induction kvs) (force split: if_splits)+

lemma distinct_json_norm_props:
  "distinct (map fst kvs) \<Longrightarrow> distinct (map fst (json_norm_props kvs))"
proof (induction kvs)
  case Nil
  show ?case by simp
next
  case (Cons kv kvs)
  obtain k v where kv: "kv = (k, v)" by (cases kv)
  from Cons.prems kv have "k \<notin> fst ` set kvs" by simp
  then have "k \<notin> fst ` set (json_norm_props kvs)"
    using fst_json_norm_props by force
  with Cons kv show ?case by simp
qed

lemma primitive_json_norm [simp]: "primitive (json_norm v) = primitive v"
  by (cases v) simp_all

lemma catalog_id_norm:
  "distinct_props e \<Longrightarrow> catalog_id (if e = Undefined then Null else json_norm e) = catalog_id e"
  by (cases e)
     (auto simp: catalog_id_def map_of_json_norm_props primitive_norm split: option.splits)

lemma distinct_props_norm:
  "distinct_props e \<Longrightarrow> distinct_props (if e = Undefined then Null else json_norm e)"
  by (cases e) (auto simp: distinct_json_norm_props)

lemma ids_json_norm_elems:
  "list_all distinct_props ys \<Longrightarrow>
   List.map_filter catalog_id (json_norm_elems ys) = List.map_filter catalog_id ys
   \<and> list_all distinct_props (json_norm_elems ys)"
proof (induction ys)
  case Nil
  show ?case by (simp add: List.map_filter_simps)
next
  case (Cons y ys)
  then show ?case
    using catalog_id_norm [of y] distinct_props_norm [of y]
    by (simp add: List.map_filter_simps split: option.splits)
qed

lemma good_json_norm:
  assumes "unique_ids ys" and "list_all distinct_props ys"
  shows "unique_collection (json_norm (Arr ys)) \<and> proper_collection (json_norm (Arr ys))"
  using assms ids_json_norm_elems [OF assms(2)] by (simp add: unique_ids_def)

lemma map_filter_append:
  "List.map_filter f (xs @ ys) = List.map_filter f xs @ List.map_filter f ys"
  by (simp add: List.map_filter_def)

lemma unique_ids_append1:
  assumes "unique_ids xs" and "\<forall>p. catalog_id item = Some p \<longrightarrow> (\<forall>x\<in>set xs. catalog_id x \<noteq> Some p)"
  shows "unique_ids (xs @ [item])"
  using assms
  by (cases "catalog_id item")
     (auto simp: unique_ids_def List.map_filter_simps map_filter_append set_map_filter)

lemma js_filter_set: "js_filter q xs = Inr ys \<Longrightarrow> set ys \<subseteq> set xs"
  by (induction xs arbitrary: ys) (auto split: sum.splits if_splits)

lemma js_filter_ids:
  "js_filter q xs = Inr ys \<Longrightarrow> distinct (List.map_filter g xs) \<Longrightarrow>
   distinct (List.map_filter g ys) \<and> set (List.map_filter g ys) \<subseteq> set (List.map_filter g xs)"
proof (induction xs arbitrary: ys)
  case Nil
  then show ?case by simp
next
  case (Cons x xs)
  from Cons.prems(1) obtain b zs where z: "js_filter q xs = Inr zs"
    and ys: "ys = (if b then x # zs else zs)"
    by (auto split: sum.splits)
  from Cons.prems(2) have d: "distinct (List.map_filter g xs)"
    by (cases "g x") (simp_all add: List.map_filter_simps)
  from Cons.IH [OF z d] Cons.prems(2) ys show ?case
    by (cases "g x") (auto simp: List.map_filter_simps)
qed

lemma unique_ids_js_filter: "js_filter q xs = Inr ys \<Longrightarrow> unique_ids xs \<Longrightarrow> unique_ids ys"
  using js_filter_ids [of q xs ys catalog_id] by (simp add: unique_ids_def)

lemma map_filter_map_cong: "map g xs = map g ys \<Longrightarrow> List.map_filter g xs = List.map_filter g ys"
proof (induction xs arbitrary: ys)
  case Nil
  then show ?case by simp
next
  case (Cons x xs)
  then obtain y zs where ys: "ys = y # zs" "g x = g y" and m: "map g xs = map g zs"
    by (cases ys) auto
  from Cons.IH [OF m] ys show ?case
    by (simp add: List.map_filter_simps split: option.splits)
qed

lemma unique_ids_update:
  assumes "unique_ids xs" and "i < length xs" and "catalog_id e' = catalog_id (xs ! i)"
  shows "unique_ids (xs[i := e'])"
proof -
  have "(map catalog_id xs)[i := map catalog_id xs ! i] = map catalog_id xs"
    by (rule list_update_id)
  then have "map catalog_id (xs[i := e']) = map catalog_id xs"
    using assms(2,3) by (simp add: map_update)
  from map_filter_map_cong [OF this] assms(1) show ?thesis by (simp add: unique_ids_def)
qed

lemma show_nat_digits: "c \<in> set (show_nat n) \<Longrightarrow> of_char c < (58::nat)"
proof (induction n rule: show_nat.induct)
  case (1 n)
  show ?case
  proof (cases "n < 10")
    case True
    with 1(2) show ?thesis by (subst (asm) show_nat.simps) auto
  next
    case False
    with 1(2) have "c \<in> set (show_nat (n div 10)) \<or> c = char_of (48 + n mod 10)"
      by (subst (asm) show_nat.simps) auto
    then show ?thesis
    proof
      assume "c \<in> set (show_nat (n div 10))"
      with 1(1) False show ?thesis by simp
    next
      assume "c = char_of (48 + n mod 10)"
      moreover have "n mod 10 < 10" by simp
      ultimately show ?thesis by (simp add: of_char_of)
    qed
  qed
qed

lemma show_nat_not_mal_id: "show_nat n \<noteq> ''mal_id''"
proof
  assume "show_nat n = ''mal_id''"
  then have "CHR ''m'' \<in> set (show_nat n)" by simp
  from show_nat_digits [OF this] show False by simp
qed

lemma spread_no_mal_id:
  "\<not> (\<exists>kvs. e = Obj kvs) \<Longrightarrow> ''mal_id'' \<notin> fst ` set (spread e)"
  by (cases e) (auto simp: show_nat_not_mal_id [symmetric] dest!: set_zip_leftD)

lemma keys_set_prop: "fst ` set (set_prop k v kvs) = insert k (fst ` set kvs)"
proof (induction kvs)
  case Nil
  show ?case by simp
next
  case (Cons kv kvs)
  obtain k' v' where kv: "kv = (k', v')" by (cases kv)
  show ?case by (cases "k' = k") (simp_all add: kv Cons.IH insert_commute)
qed

lemma distinct_set_prop:
  "distinct (map fst kvs) \<Longrightarrow> distinct (map fst (set_prop k v kvs))"
proof (induction kvs)
  case Nil
  show ?case by simp
next
  case (Cons kv kvs)
  obtain k' v' where kv: "kv = (k', v')" by (cases kv)
  show ?case
  proof (cases "k' = k")
    case True
    with Cons.prems kv show ?thesis by simp
  next
    case False
    from Cons.prems kv have "k' \<notin> fst ` set kvs" by simp
    with False have "k' \<notin> fst ` set (set_prop k v kvs)" by (simp add: keys_set_prop)
    with Cons kv False show ?thesis by simp
  qed
qed

lemma distinct_fold_set_prop:
  "distinct (map fst acc) \<Longrightarrow> distinct (map fst (fold (\<lambda>(k, v). set_prop k v) kvs acc))"
  by (induction kvs arbitrary: acc) (auto simp: distinct_set_prop)

lemma distinct_props_merge: "distinct_props (spread_merge e u)"
  by (simp add: spread_merge_def distinct_fold_set_prop)

lemma map_of_rev_None: "map_of (rev kvs) k = None \<longleftrightarrow> map_of kvs k = None"
  by (simp add: map_of_eq_None_iff)

lemma catalog_id_merge:
  assumes "distinct_props e" and "map_of (spread u) ''mal_id'' = None"
  shows "catalog_id (spread_merge e u) = catalog_id e"
proof -
  have m: "map_of (fold (\<lambda>(k, v). set_prop k v) (spread u)
               (fold (\<lambda>(k, v). set_prop k v) (spread e) [])) ''mal_id''
           = map_of (rev (spread e)) ''mal_id''"
    using assms(2) map_of_rev_None [of "spread u" "''mal_id''"]
    by (simp add: map_of_fold_set_prop map_add_def)
  show ?thesis
  proof (cases "\<exists>kvs. e = Obj kvs")
    case True
    then obtain kvs where e: "e = Obj kvs" by blast
    with assms(1) have "map_of (rev (spread e)) = map_of kvs"
      by (simp add: distinct_map_of_rev)
    with m e show ?thesis by (simp add: catalog_id_def spread_merge_def)
  next
    case False
    from spread_no_mal_id [OF False] have "map_of (rev (spread e)) ''mal_id'' = None"
      by (simp add: map_of_eq_None_iff)
    moreover from False have "catalog_id e = None"
      by (cases e) (simp_all add: catalog_id_def)
    ultimately show ?thesis using m by (simp add: catalog_id_def spread_merge_def)
  qed
qed

lemma js_findIndex_result:
  "js_findIndex (mal_id_is p) xs = Inr (Some i) \<Longrightarrow> i < length xs \<and> has_id p (xs ! i)"
proof (induction xs arbitrary: i)
  case Nil
  then show ?case by simp
next
  case (Cons x xs)
  then show ?case
    by (auto simp: has_id_def split: sum.splits if_splits option.splits)
qed

lemma good_after_save:
  assumes "json_contract P" and "saveData P k (Arr ys) d1 = (r1, d2)"
    and "unique_collection (stored P k d1)" and "proper_collection (stored P k d1)"
    and "unique_ids ys" and "list_all distinct_props ys"
  shows "unique_collection (stored P k d2) \<and> proper_collection (stored P k d2)"
  using saveData_any [OF assms(1,2)] good_json_norm [OF assms(5,6)] assms(3,4)
  by (auto simp: unique_ids_def List.map_filter_simps split: if_splits)

lemma entry_maker_item:
  assumes "entry_maker k0 clk record = Inr item"
  shows "\<exists>p. get_prop record ''mal_id'' = Inr p \<and> distinct_props item
           \<and> catalog_id item = (if primitive p then Some p else None)"
proof (cases "get_prop record ''mal_id''")
  case (Inl e)
  with entry_maker_error [OF Inl, of k0 clk] assms show ?thesis by simp
next
  case (Inr p)
  from entry_maker_shape [OF Inr, of k0 clk] assms Inr show ?thesis
    by (auto simp: catalog_id_def)
qed

lemma add_entry_good:
  assumes "json_contract P"
    and "unique_collection (stored P k d)" and "proper_collection (stored P k d)"
    and "add_entry (entry_maker k0) P k clk record d = (r, d')"
  shows "unique_collection (stored P k d') \<and> proper_collection (stored P k d')
       \<and> (\<forall>v. r = Inr v \<longrightarrow> unique_collection v)"
proof -
  obtain v d1 where g: "getWatchlist P k d = (v, d1)" by (cases "getWatchlist P k d")
  from getWatchlist_any [OF assms(1) g]
  have v: "v = stored P k d" and s1: "stored P k d1 = stored P k d" by simp_all
  note good1 = assms(2,3) [folded s1]
  show ?thesis
  proof (cases "entry_maker k0 clk record")
    case (Inl e)
    with assms(4) g good1 show ?thesis by (auto simp: add_entry_def)
  next
    case (Inr item)
    from entry_maker_item [OF Inr] obtain p where p: "get_prop record ''mal_id'' = Inr p"
      and di: "distinct_props item"
      and ci: "catalog_id item = (if primitive p then Some p else None)"
      by blast
    show ?thesis
    proof (cases "\<exists>xs. v = Arr xs")
      case False
      with assms(4) g Inr good1 show ?thesis
        by (cases v) (auto simp: add_entry_def)
    next
      case True
      then obtain xs where xs: "v = Arr xs" by blast
      with v have st: "stored P k d = Arr xs" by simp
    from assms(2,3) have u: "unique_ids xs" and w: "list_all distinct_props xs"
      by (simp_all add: st)
      show ?thesis
      proof (cases "js_find (mal_id_is p) xs")
        case (Inl e)
        with assms(4) g Inr xs p good1 show ?thesis
          by (auto simp: add_entry_def mal_id_matches_eq)
      next
        case found: (Inr f)
        show ?thesis
        proof (cases "truthy f")
          case True
          with assms(4) g Inr xs p good1 found u show ?thesis
            by (auto simp: add_entry_def mal_id_matches_eq)
        next
          case False
          obtain r1 d2 where sv: "saveData P k (Arr (xs @ [item])) d1 = (r1, d2)"
            by (cases "saveData P k (Arr (xs @ [item])) d1")
          have fresh: "\<forall>q. catalog_id item = Some q \<longrightarrow> (\<forall>x\<in>set xs. catalog_id x \<noteq> Some q)"
          proof (intro allI impI ballI)
            fix q x
            assume q: "catalog_id item = Some q" and x: "x \<in> set xs"
            with ci have pq: "primitive p" "q = p" by (auto split: if_splits)
            from js_find_result [OF found] False has_id_truthy [OF pq(1)]
            have "\<not> has_id p x" using x by auto
            with pq show "catalog_id x \<noteq> Some q" by (simp add: has_id_primitive)
          qed
          have u2: "unique_ids (xs @ [item])" using u fresh by (rule unique_ids_append1)
          have w2: "list_all distinct_props (xs @ [item])" using w di by simp
          from good_after_save [OF assms(1) sv good1 u2 w2]
          have good2: "unique_collection (stored P k d2) \<and> proper_collection (stored P k d2)" .
          from assms(4) g Inr xs p found False sv
          have "r = (case r1 of Inl e \<Rightarrow> Inl e | Inr u \<Rightarrow> Inr (Arr (xs @ [item])))
              \<and> stored P k d' = stored P k d2"
            by (auto simp: add_entry_def mal_id_matches_eq split: sum.splits)
          with good2 u2 show ?thesis by (auto split: sum.splits)
        qed
      qed
    qed
  qed
qed

lemma remove_good:
  assumes "json_contract P"
    and "unique_collection (stored P k d)" and "proper_collection (stored P k d)"
    and "removeFromWatchlist P k ident d = (r, d')"
  shows "unique_collection (stored P k d') \<and> proper_collection (stored P k d')
       \<and> (\<forall>v. r = Inr v \<longrightarrow> unique_collection v)"
proof -
  obtain v d1 where g: "getWatchlist P k d = (v, d1)" by (cases "getWatchlist P k d")
  from getWatchlist_any [OF assms(1) g]
  have v: "v = stored P k d" and s1: "stored P k d1 = stored P k d" by simp_all
  note good1 = assms(2,3) [folded s1]
  show ?thesis
  proof (cases "\<exists>xs. v = Arr xs")
    case False
    with assms(4) g good1 show ?thesis
      by (cases v) (auto simp: removeFromWatchlist_def)
  next
    case True
    then obtain xs where xs: "v = Arr xs" by blast
    with v have st: "stored P k d = Arr xs" by simp
    from assms(2,3) have u: "unique_ids xs" and w: "list_all distinct_props xs"
      by (simp_all add: st)
    show ?thesis
    proof (cases "js_find (mal_id_is ident) xs")
      case (Inl e)
      with assms(4) g xs good1 show ?thesis by (auto simp: removeFromWatchlist_def)
    next
      case found: (Inr f)
      show ?thesis
      proof (cases "js_filter (mal_id_is_not ident) xs")
        case (Inl e)
        with assms(4) g xs good1 found show ?thesis by (auto simp: removeFromWatchlist_def)
      next
        case (Inr ys)
        obtain r1 d2 where sv: "saveData P k (Arr ys) d1 = (r1, d2)"
          by (cases "saveData P k (Arr ys) d1")
        have u2: "unique_ids ys" using Inr u by (rule unique_ids_js_filter)
        have w2: "list_all distinct_props ys"
          using js_filter_set [OF Inr] w by (auto simp: list_all_iff)
        from good_after_save [OF assms(1) sv good1 u2 w2]
        have good2: "unique_collection (stored P k d2) \<and> proper_collection (stored P k d2)" .
        from assms(4) g xs found Inr sv
        have "r = (case r1 of Inl e \<Rightarrow> Inl e | Inr u \<Rightarrow> Inr (Arr ys))
            \<and> stored P k d' = stored P k d2"
          by (auto simp: removeFromWatchlist_def split: sum.splits)
        with good2 u2 show ?thesis by (auto split: sum.splits)
      qed
    qed
  qed
qed

lemma update_good:
  assumes "json_contract P"
    and "unique_collection (stored P k d)" and "proper_collection (stored P k d)"
    and "map_of (spread updates) ''mal_id'' = None"
    and "updateWatchlist P k ident updates d = (r, d')"
  shows "unique_collection (stored P k d') \<and> proper_collection (stored P k d')
       \<and> (\<forall>v. r = Inr v \<longrightarrow> unique_collection v)"
proof -
  obtain v d1 where g: "getWatchlist P k d = (v, d1)" by (cases "getWatchlist P k d")
  from getWatchlist_any [OF assms(1) g]
  have v: "v = stored P k d" and s1: "stored P k d1 = stored P k d" by simp_all
  note good1 = assms(2,3) [folded s1]
  show ?thesis
  proof (cases "\<exists>xs. v = Arr xs")
    case False
    with assms(5) g good1 show ?thesis
      by (cases v) (auto simp: updateWatchlist_def)
  next
    case True
    then obtain xs where xs: "v = Arr xs" by blast
    with v have st: "stored P k d = Arr xs" by simp
    from assms(2,3) have u: "unique_ids xs" and w: "list_all distinct_props xs"
      by (simp_all add: st)
    show ?thesis
    proof (cases "js_findIndex (mal_id_is ident) xs")
      case (Inl e)
      with assms(5) g xs good1 show ?thesis by (auto simp: updateWatchlist_def)
    next
      case (Inr found)
      show ?thesis
      proof (cases found)
        case None
        with assms(5) g xs good1 Inr u show ?thesis by (auto simp: updateWatchlist_def)
      next
        case (Some i)
        let ?ys = "xs[i := spread_merge (xs ! i) updates]"
        from js_findIndex_result Inr Some have i: "i < length xs" by blast
        with w have "distinct_props (xs ! i)" by (simp add: list_all_length)
        from catalog_id_merge [OF this assms(4)]
        have u2: "unique_ids ?ys" using u i by (intro unique_ids_update) simp_all
        have w2: "list_all distinct_props ?ys"
          using w distinct_props_merge [of "xs ! i" updates]
          by (auto simp: list_all_iff dest!: set_update_subset_insert [THEN subsetD])
        obtain r1 d2 where sv: "saveData P k (Arr ?ys) d1 = (r1, d2)"
          by (cases "saveData P k (Arr ?ys) d1")
        from good_after_save [OF assms(1) sv good1 u2 w2]
        have good2: "unique_collection (stored P k d2) \<and> proper_collection (stored P k d2)" .
        from assms(5) g xs Inr Some sv
        have "r = (case r1 of Inl e \<Rightarrow> Inl e | Inr u \<Rightarrow> Inr (Arr ?ys))
            \<and> stored P k d' = stored P k d2"
          by (auto simp: updateWatchlist_def split: sum.splits)
        with good2 u2 show ?thesis by (auto split: sum.splits)
      qed
    qed
  qed
qed

lemma with_manager_good:
  assumes "json_contract P"
    and "unique_collection (stored P k d)" and "proper_collection (stored P k d)"
    and step: "\<And>d0 r d'. unique_collection (stored P k d0) \<Longrightarrow> proper_collection (stored P k d0) \<Longrightarrow>
            m d0 = (r, d') \<Longrightarrow>
            unique_collection (stored P k d') \<and> proper_collection (stored P k d')
            \<and> (\<forall>v. r = Inr v \<longrightarrow> unique_collection v)"
  shows "unique_collection (stored P k (snd (with_manager P k m d)))
       \<and> proper_collection (stored P k (snd (with_manager P k m d)))
       \<and> (\<forall>v. fst (with_manager P k m d) = Inr v \<longrightarrow> unique_collection v)"
proof -
  from with_manager_any [OF assms(1), of k m d]
  consider e where "with_manager P k m d = (Inl e, d)"
    | d0 where "with_manager P k m d = m d0" "stored P k d0 = stored P k d"
    by blast
  then show ?thesis
  proof cases
    case 1
    with assms(2,3) show ?thesis by simp
  next
    case 2
    obtain r d' where m: "m d0 = (r, d')" by (cases "m d0")
    from step [OF _ _ m] 2 assms(2,3) m show ?thesis by simp
  qed
qed

lemma get_good:
  assumes "json_contract P"
    and "unique_collection (stored P k d)" and "proper_collection (stored P k d)"
    and "returning (getWatchlist P k d) = (r, d')"
  shows "unique_collection (stored P k d') \<and> proper_collection (stored P k d')
       \<and> (\<forall>v. r = Inr v \<longrightarrow> unique_collection v)"
proof -
  obtain v d1 where g: "getWatchlist P k d = (v, d1)" by (cases "getWatchlist P k d")
  from getWatchlist_any [OF assms(1) g] assms(2,3,4) g show ?thesis
    by (auto simp: returning_def)
qed

lemma handle_update_found:
  assumes "json_contract P" and "healthy d" and "stored P Watchlist d = Arr (pre @ e # post)"
    and "list_all has_props pre" and "list_all (\<lambda>a. \<not> has_id ident a) pre" and "has_id ident e"
  shows "fst (ipc_handle P clk (UpdateWatchlist ident updates) d)
           = Inr (Arr (pre @ spread_merge e updates # post))"
proof -
  from with_manager_healthy [OF assms(1,2), of Watchlist "updateWatchlist P Watchlist ident updates"]
  obtain d0 where m: "ipc_handle P clk (UpdateWatchlist ident updates) d
        = updateWatchlist P Watchlist ident updates d0"
    and r: "ready d0" and s: "stored P Watchlist d0 = Arr (pre @ e # post)"
    using assms(3) by auto
  from update_found [OF assms(1) r s assms(4,5,6), of updates] m show ?thesis by auto
qed

lemma proper_two_entries: "list_all distinct_props two_entries"
  by (simp add: two_entries_def)

lemma handled_good:
  assumes "json_contract P"
    and "unique_collection (stored P k d)" and "proper_collection (stored P k d)"
    and "ipc_handle P clk req d = with_manager P k m d"
    and "\<And>d0 r d'. unique_collection (stored P k d0) \<Longrightarrow> proper_collection (stored P k d0) \<Longrightarrow>
            m d0 = (r, d') \<Longrightarrow>
            unique_collection (stored P k d') \<and> proper_collection (stored P k d')
            \<and> (\<forall>v. r = Inr v \<longrightarrow> unique_collection v)"
  shows "unique_collection (stored P k (snd (ipc_handle P clk req d)))
       \<and> proper_collection (stored P k (snd (ipc_handle P clk req d)))
       \<and> (\<forall>v. fst (ipc_handle P clk req d) = Inr v \<longrightarrow> unique_collection v)"
  unfolding assms(4) using assms(1,2,3,5) by (rule with_manager_good)

lemma good_get_request:
  assumes "json_contract P"
    and "unique_collection (stored P k d)" and "proper_collection (stored P k d)"
  shows "unique_collection (stored P k (snd (ipc_handle P clk (get_request k) d)))
       \<and> proper_collection (stored P k (snd (ipc_handle P clk (get_request k) d)))
       \<and> (\<forall>v. fst (ipc_handle P clk (get_request k) d) = Inr v \<longrightarrow> unique_collection v)"
  using assms ipc_get
proof (rule handled_good)
  fix d0 r d'
  assume "unique_collection (stored P k d0)" "proper_collection (stored P k d0)"
    "returning (getWatchlist P k d0) = (r, d')"
  with assms(1) show "unique_collection (stored P k d') \<and> proper_collection (stored P k d')
       \<and> (\<forall>v. r = Inr v \<longrightarrow> unique_collection v)"
    by (rule get_good)
qed

lemma good_add_request:
  assumes "json_contract P"
    and "unique_collection (stored P k d)" and "proper_collection (stored P k d)"
  shows "unique_collection (stored P k (snd (ipc_handle P clk (add_request k a) d)))
       \<and> proper_collection (stored P k (snd (ipc_handle P clk (add_request k a) d)))
       \<and> (\<forall>v. fst (ipc_handle P clk (add_request k a) d) = Inr v \<longrightarrow> unique_collection v)"
  using assms ipc_add
proof (rule handled_good)
  fix d0 r d'
  assume "unique_collection (stored P k d0)" "proper_collection (stored P k d0)"
    "add_entry (entry_maker k) P k clk a d0 = (r, d')"
  with assms(1) show "unique_collection (stored P k d') \<and> proper_collection (stored P k d')
       \<and> (\<forall>v. r = Inr v \<longrightarrow> unique_collection v)"
    by (rule add_entry_good)
qed

lemma good_remove_request:
  assumes "json_contract P"
    and "unique_collection (stored P k d)" and "proper_collection (stored P k d)"
  shows "unique_collection (stored P k (snd (ipc_handle P clk (remove_request k i) d)))
       \<and> proper_collection (stored P k (snd (ipc_handle P clk (remove_request k i) d)))
       \<and> (\<forall>v. fst (ipc_handle P clk (remove_request k i) d) = Inr v \<longrightarrow> unique_collection v)"
  using assms ipc_remove
proof (rule handled_good)
  fix d0 r d'
  assume "unique_collection (stored P k d0)" "proper_collection (stored P k d0)"
    "removeFromWatchlist P k i d0 = (r, d')"
  with assms(1) show "unique_collection (stored P k d') \<and> proper_collection (stored P k d')
       \<and> (\<forall>v. r = Inr v \<longrightarrow> unique_collection v)"
    by (rule remove_good)
qed

lemma good_update_request:
  assumes "json_contract P"
    and "unique_collection (stored P Watchlist d)" and "proper_collection (stored P Watchlist d)"
    and "map_of (spread u) ''mal_id'' = None"
  shows "unique_collection (stored P Watchlist (snd (ipc_handle P clk (UpdateWatchlist i u) d)))
       \<and> proper_collection (stored P Watchlist (snd (ipc_handle P clk (UpdateWatchlist i u) d)))
       \<and> (\<forall>v. fst (ipc_handle P clk (UpdateWatchlist i u) d) = Inr v \<longrightarrow> unique_collection v)"
  using assms(1,2,3) ipc_update
proof (rule handled_good)
  fix d0 r d'
  assume "unique_collection (stored P Watchlist d0)" "proper_collection (stored P Watchlist d0)"
    "updateWatchlist P Watchlist i u d0 = (r, d')"
  with assms(1) show "unique_collection (stored P Watchlist d')
       \<and> proper_collection (stored P Watchlist d')
       \<and> (\<forall>v. r = Inr v \<longrightarrow> unique_collection v)"
    using assms(4) by (intro update_good)
qed

section \<open>When the disk cannot be written, and when the file cannot be read\<close>

lemma saveData_unwritable:
  "\<not> write_ok d \<Longrightarrow> fst (saveData P k v d) = Inl IOError"
  by (simp add: saveData_def)

lemma saveData_refused:
  "\<not> write_ok d \<Longrightarrow> \<not> write_truncates d \<Longrightarrow> files (snd (saveData P k v d)) = files d"
  by (simp add: saveData_def)

lemma saveData_truncated:
  "\<not> write_ok d \<Longrightarrow> write_truncates d \<Longrightarrow> dir_exists d \<Longrightarrow>
   files (snd (saveData P k v d)) = (files d)(k \<mapsto> [])"
  by (simp add: saveData_def)

lemma getWatchlist_flags [simp]:
  "dir_exists (snd (getWatchlist P k d)) = dir_exists d"
  "read_ok (snd (getWatchlist P k d)) = read_ok d"
  "write_ok (snd (getWatchlist P k d)) = write_ok d"
  "mkdir_ok (snd (getWatchlist P k d)) = mkdir_ok d"
  "write_truncates (snd (getWatchlist P k d)) = write_truncates d"
  by (auto simp: getWatchlist_def split: option.splits sum.splits)

lemma getWatchlist_refused:
  "\<not> write_ok d \<Longrightarrow> \<not> write_truncates d \<Longrightarrow> files (snd (getWatchlist P k d)) = files d"
  by (auto simp: getWatchlist_def saveData_refused split: option.splits sum.splits)

lemma ensure_flags:
  assumes "ensureDataDirectory P k d = (r, d0)"
  shows "read_ok d0 = read_ok d \<and> write_ok d0 = write_ok d \<and> mkdir_ok d0 = mkdir_ok d
       \<and> write_truncates d0 = write_truncates d
       \<and> (r = Inr () \<longrightarrow> dir_exists d0) \<and> (dir_exists d \<or> mkdir_ok d \<longrightarrow> r = Inr ())"
  using assms by (auto simp: ensureDataDirectory_def Let_def split: if_splits)

lemma ensure_refused:
  assumes "\<not> write_ok d" and "\<not> write_truncates d" and "ensureDataDirectory P k d = (r, d0)"
  shows "files d0 = files d"
  using assms by (auto simp: ensureDataDirectory_def Let_def saveData_refused split: if_splits)

lemma with_manager_any_disk:
  assumes "json_contract P" and "dir_exists d \<or> mkdir_ok d"
  shows "\<exists>d0. with_manager P k m d = m d0 \<and> dir_exists d0
           \<and> read_ok d0 = read_ok d \<and> write_ok d0 = write_ok d
           \<and> write_truncates d0 = write_truncates d
           \<and> stored P k d0 = stored P k d"
proof -
  obtain r d0 where e: "ensureDataDirectory P k d = (r, d0)"
    by (cases "ensureDataDirectory P k d")
  from ensure_flags [OF e] assms(2) have r: "r = Inr ()" by simp
  with e have "with_manager P k m d = m d0" by (simp add: with_manager_def)
  with ensure_flags [OF e] ensure_any [OF assms(1) e] r show ?thesis by auto
qed

lemma saveData_fails:
  assumes "\<not> write_ok d"
  shows "\<exists>d2. saveData P k v d = (Inl IOError, d2)
          \<and> files d2 = (if dir_exists d \<and> write_truncates d then (files d)(k \<mapsto> []) else files d)
          \<and> error_log d2 = error_log d @ [ErrorSaving k IOError]"
  using assms by (simp add: saveData_def)

lemma getWatchlist_result:
  "\<exists>d1. getWatchlist P k d = (stored P k d, d1) \<and> dir_exists d1 = dir_exists d
          \<and> write_ok d1 = write_ok d \<and> write_truncates d1 = write_truncates d
          \<and> read_ok d1 = read_ok d"
  by (cases "getWatchlist P k d") (simp add: stored_def, metis getWatchlist_flags snd_conv)

lemma remove_unwritable:
  assumes "\<not> write_ok d" and "stored P k d = Arr xs" and "list_all has_props xs"
  shows "fst (removeFromWatchlist P k i d) = Inl IOError"
proof -
  from getWatchlist_result [of P k d] assms(1,2)
  obtain d1 where g: "getWatchlist P k d = (Arr xs, d1)" and w: "\<not> write_ok d1" by auto
  from saveData_fails [OF w, of P k "Arr (filter (\<lambda>a. \<not> has_id i a) xs)"]
  obtain d2 where "saveData P k (Arr (filter (\<lambda>a. \<not> has_id i a) xs)) d1 = (Inl IOError, d2)"
    by blast
  with g assms(3) show ?thesis
    by (simp add: removeFromWatchlist_def js_find_props js_filter_props)
qed

lemma remove_never_returns:
  assumes "\<not> write_ok d"
  shows "\<exists>e. fst (removeFromWatchlist P k i d) = Inl e"
proof -
  from getWatchlist_result [of P k d] assms(1)
  obtain d1 where g: "getWatchlist P k d = (stored P k d, d1)" and w: "\<not> write_ok d1" by auto
  have s: "\<exists>d2. saveData P k v d1 = (Inl IOError, d2)" for v
    using saveData_fails [OF w, of P k v] by blast
  show ?thesis
  proof (cases "stored P k d")
    case (Arr xs)
    show ?thesis
    proof (cases "js_find (mal_id_is i) xs")
      case (Inl e)
      with g Arr show ?thesis by (simp add: removeFromWatchlist_def)
    next
      case f: (Inr f)
      show ?thesis
      proof (cases "js_filter (mal_id_is_not i) xs")
        case (Inl e)
        with g Arr f show ?thesis by (simp add: removeFromWatchlist_def)
      next
        case (Inr ys)
        from s [of "Arr ys"] obtain d2 where "saveData P k (Arr ys) d1 = (Inl IOError, d2)"
          by blast
        with g Arr f Inr show ?thesis by (simp add: removeFromWatchlist_def)
      qed
    qed
  qed (use g in \<open>simp_all add: removeFromWatchlist_def\<close>)
qed

lemma add_unwritable:
  assumes "\<not> write_ok d" and "stored P k d = Arr xs" and "list_all has_props xs"
    and "get_prop record ''mal_id'' = Inr p" and "\<not> list_ex (has_id p) xs"
    and "mk clk record = Inr item"
  shows "fst (add_entry mk P k clk record d) = Inl IOError"
proof -
  from getWatchlist_result [of P k d] assms(1,2)
  obtain d1 where g: "getWatchlist P k d = (Arr xs, d1)" and w: "\<not> write_ok d1" by auto
  from assms(5) have "List.find (has_id p) xs = None"
    by (simp add: find_None_iff list_ex_iff)
  with assms(3,4) have f: "js_find (mal_id_matches record) xs = Inr Undefined"
    by (simp add: mal_id_matches_eq js_find_props)
  from saveData_fails [OF w, of P k "Arr (xs @ [item])"]
  obtain d2 where "saveData P k (Arr (xs @ [item])) d1 = (Inl IOError, d2)" by blast
  with g f assms(6) show ?thesis by (simp add: add_entry_def)
qed

lemma update_unwritable:
  assumes "\<not> write_ok d" and "stored P k d = Arr (pre @ e # post)"
    and "list_all has_props pre" and "list_all (\<lambda>a. \<not> has_id i a) pre" and "has_id i e"
  shows "fst (updateWatchlist P k i u d) = Inl IOError"
proof -
  from getWatchlist_result [of P k d] assms(1,2)
  obtain d1 where g: "getWatchlist P k d = (Arr (pre @ e # post), d1)" and w: "\<not> write_ok d1"
    by auto
  from saveData_fails [OF w, of P k "Arr (pre @ spread_merge e u # post)"]
  obtain d2 where "saveData P k (Arr (pre @ spread_merge e u # post)) d1 = (Inl IOError, d2)"
    by blast
  with g js_findIndex_first [OF assms(3,4,5), of post] show ?thesis
    by (simp add: updateWatchlist_def)
qed

lemma get_length_error: "get_prop v ''length'' = Inl e \<longleftrightarrow> \<not> has_props v \<and> e = TypeError"
  by (cases v) auto

lemma getWatchlist_repairs:
  assumes "files d k = Some t" and "dir_exists d" and "write_ok d"
    and "\<not> read_ok d
         \<or> (js_trim t \<noteq> []
            \<and> (json_parse P t = None \<or> (\<exists>v. json_parse P t = Some v \<and> \<not> has_props v)))"
  shows "getWatchlist P k d
           = (Arr [],
              (console_error
                 (ErrorReading k
                    (if \<not> read_ok d then IOError
                     else if json_parse P t = None then SyntaxError else TypeError)) d)
              \<lparr>files := (files d)(k \<mapsto> json_stringify P 2 (Arr []))\<rparr>)"
proof (cases "read_ok d")
  case False
  with assms(1,2,3) show ?thesis by (simp add: getWatchlist_def saveData_def)
next
  case True
  with assms(4) consider "js_trim t \<noteq> []" "json_parse P t = None"
    | v where "js_trim t \<noteq> []" "json_parse P t = Some v" "\<not> has_props v" by auto
  then show ?thesis
  proof cases
    case 1
    with True assms(1,2,3) show ?thesis by (simp add: getWatchlist_def saveData_def)
  next
    case 2
    then have "get_prop v ''length'' = Inl TypeError" by (simp add: get_length_error)
    with 2 True assms(1,2,3) show ?thesis by (simp add: getWatchlist_def saveData_def)
  qed
qed




lemma method_unwritable:
  assumes "\<not> write_ok d"
  shows "(\<not> write_truncates d \<longrightarrow> files (snd (add_entry mk P k clk a d)) = files d)
       \<and> (\<forall>v. fst (add_entry mk P k clk a d) = Inr v \<longrightarrow> v = stored P k d)"
    and "(\<not> write_truncates d \<longrightarrow> files (snd (removeFromWatchlist P k i d)) = files d)
       \<and> (\<forall>v. fst (removeFromWatchlist P k i d) = Inr v \<longrightarrow> v = stored P k d)"
    and "(\<not> write_truncates d \<longrightarrow> files (snd (updateWatchlist P k i u d)) = files d)
       \<and> (\<forall>v. fst (updateWatchlist P k i u d) = Inr v \<longrightarrow> v = stored P k d)"
    and "(\<not> write_truncates d \<longrightarrow> files (snd (returning (getWatchlist P k d))) = files d)
       \<and> (\<forall>v. fst (returning (getWatchlist P k d)) = Inr v \<longrightarrow> v = stored P k d)"
proof -
  obtain d1 where g: "getWatchlist P k d = (stored P k d, d1)" and w: "\<not> write_ok d1"
    and t: "write_truncates d1 = write_truncates d"
    using getWatchlist_result [of P k d] assms by auto
  have f1: "\<not> write_truncates d \<Longrightarrow> files d1 = files d"
    using getWatchlist_refused [OF assms, of P k] g by simp
  have s: "\<exists>d2. saveData P k v d1 = (Inl IOError, d2)
             \<and> (\<not> write_truncates d \<longrightarrow> files d2 = files d1)" for v
    using saveData_fails [OF w, of P k v] t by auto
  show "(\<not> write_truncates d \<longrightarrow> files (snd (add_entry mk P k clk a d)) = files d)
       \<and> (\<forall>v. fst (add_entry mk P k clk a d) = Inr v \<longrightarrow> v = stored P k d)"
  proof (cases "mk clk a")
    case (Inl e)
    with g f1 show ?thesis by (simp add: add_entry_def)
  next
    case (Inr item)
    show ?thesis
    proof (cases "stored P k d")
      case (Arr xs)
      show ?thesis
      proof (cases "js_find (mal_id_matches a) xs")
        case (Inl e)
        with g f1 Inr Arr show ?thesis by (simp add: add_entry_def)
      next
        case f: (Inr found)
        from s [of "Arr (xs @ [item])"] obtain d2
          where "saveData P k (Arr (xs @ [item])) d1 = (Inl IOError, d2)"
            and "\<not> write_truncates d \<longrightarrow> files d2 = files d1" by blast
        with g f1 Inr Arr f show ?thesis by (simp add: add_entry_def)
      qed
    qed (use g f1 Inr in \<open>simp_all add: add_entry_def\<close>)
  qed
  show "(\<not> write_truncates d \<longrightarrow> files (snd (removeFromWatchlist P k i d)) = files d)
       \<and> (\<forall>v. fst (removeFromWatchlist P k i d) = Inr v \<longrightarrow> v = stored P k d)"
  proof (cases "stored P k d")
    case (Arr xs)
    show ?thesis
    proof (cases "js_find (mal_id_is i) xs")
      case (Inl e)
      with g f1 Arr show ?thesis by (simp add: removeFromWatchlist_def)
    next
      case f: (Inr found)
      show ?thesis
      proof (cases "js_filter (mal_id_is_not i) xs")
        case (Inl e)
        with g f1 Arr f show ?thesis by (simp add: removeFromWatchlist_def)
      next
        case (Inr ys)
        from s [of "Arr ys"] obtain d2
          where "saveData P k (Arr ys) d1 = (Inl IOError, d2)"
            and "\<not> write_truncates d \<longrightarrow> files d2 = files d1" by blast
        with g f1 Arr f Inr show ?thesis by (simp add: removeFromWatchlist_def)
      qed
    qed
  qed (use g f1 in \<open>simp_all add: removeFromWatchlist_def\<close>)
  show "(\<not> write_truncates d \<longrightarrow> files (snd (updateWatchlist P k i u d)) = files d)
       \<and> (\<forall>v. fst (updateWatchlist P k i u d) = Inr v \<longrightarrow> v = stored P k d)"
  proof (cases "stored P k d")
    case (Arr xs)
    show ?thesis
    proof (cases "js_findIndex (mal_id_is i) xs")
      case (Inl e)
      with g f1 Arr show ?thesis by (simp add: updateWatchlist_def)
    next
      case f: (Inr found)
      show ?thesis
      proof (cases found)
        case None
        with g f1 Arr f show ?thesis by (simp add: updateWatchlist_def)
      next
        case (Some j)
        from s [of "Arr (xs[j := spread_merge (xs ! j) u])"] obtain d2
          where "saveData P k (Arr (xs[j := spread_merge (xs ! j) u])) d1 = (Inl IOError, d2)"
            and "\<not> write_truncates d \<longrightarrow> files d2 = files d1" by blast
        with g f1 Arr f Some show ?thesis by (simp add: updateWatchlist_def)
      qed
    qed
  qed (use g f1 in \<open>simp_all add: updateWatchlist_def\<close>)
  show "(\<not> write_truncates d \<longrightarrow> files (snd (returning (getWatchlist P k d))) = files d)
       \<and> (\<forall>v. fst (returning (getWatchlist P k d)) = Inr v \<longrightarrow> v = stored P k d)"
    using g f1 by (simp add: returning_def)
qed

lemma with_manager_unwritable:
  assumes "json_contract P" and "\<not> write_ok d"
    and "\<And>d0. \<not> write_ok d0 \<Longrightarrow>
           (\<not> write_truncates d0 \<longrightarrow> files (snd (m d0)) = files d0)
           \<and> (\<forall>v. fst (m d0) = Inr v \<longrightarrow> v = stored P k d0)"
  shows "(\<not> write_truncates d \<longrightarrow> files (snd (with_manager P k m d)) = files d)
       \<and> (\<forall>v. fst (with_manager P k m d) = Inr v \<longrightarrow> v = stored P k d)"
proof -
  obtain r d0 where e: "ensureDataDirectory P k d = (r, d0)"
    by (cases "ensureDataDirectory P k d")
  from ensure_flags [OF e] assms(2)
  have w: "\<not> write_ok d0" and t: "write_truncates d0 = write_truncates d" by simp_all
  have f: "\<not> write_truncates d \<Longrightarrow> files d0 = files d"
    using ensure_refused [OF assms(2) _ e] by simp
  have s: "stored P k d0 = stored P k d" using ensure_any [OF assms(1) e] .
  show ?thesis
  proof (cases r)
    case (Inl err)
    with e f show ?thesis by (simp add: with_manager_def)
  next
    case (Inr u)
    with e have "with_manager P k m d = m d0" by (simp add: with_manager_def)
    with assms(3) [OF w] f s t show ?thesis by simp
  qed
qed

lemma unwritable_request:
  assumes "json_contract P" and "\<not> write_ok d"
  shows "(\<not> write_truncates d \<longrightarrow> files (snd (ipc_handle P clk req d)) = files d)
       \<and> (\<forall>v. fst (ipc_handle P clk req d) = Inr v \<longrightarrow> v = stored P (request_kind req) d)"
proof -
  note wm = with_manager_unwritable [OF assms]
  show ?thesis
  proof (cases req)
    case GetWatchlist
    then show ?thesis
      using wm [of "\<lambda>d. returning (getWatchlist P Watchlist d)" Watchlist]
      by (simp add: method_unwritable)
  next
    case (AddToWatchlist a)
    then show ?thesis
      using wm [of "addToWatchlist P Watchlist clk a" Watchlist]
      by (simp add: method_unwritable addToWatchlist_def)
  next
    case (RemoveFromWatchlist i)
    then show ?thesis
      using wm [of "removeFromWatchlist P Watchlist i" Watchlist]
      by (simp add: method_unwritable)
  next
    case (UpdateWatchlist i u)
    then show ?thesis
      using wm [of "updateWatchlist P Watchlist i u" Watchlist]
      by (simp add: method_unwritable)
  next
    case GetReadinglist
    then show ?thesis
      using wm [of "\<lambda>d. returning (getWatchlist P Readinglist d)" Readinglist]
      by (simp add: method_unwritable getReadingList_def)
  next
    case (AddToReadinglist a)
    then show ?thesis
      using wm [of "addToReadingList P Readinglist clk a" Readinglist]
      by (simp add: method_unwritable addToReadingList_def)
  next
    case (RemoveFromReadinglist i)
    then show ?thesis
      using wm [of "removeFromWatchlist P Readinglist i" Readinglist]
      by (simp add: method_unwritable removeFromReadingList_def)
  next
    case GetFavorites
    then show ?thesis
      using wm [of "\<lambda>d. returning (getWatchlist P Favorites d)" Favorites]
      by (simp add: method_unwritable getFavorites_def)
  next
    case (AddToFavorites a)
    then show ?thesis
      using wm [of "addToFavorites P Favorites clk a" Favorites]
      by (simp add: method_unwritable addToFavorites_def)
  next
    case (RemoveFromFavorites i)
    then show ?thesis
      using wm [of "removeFromWatchlist P Favorites i" Favorites]
      by (simp add: method_unwritable removeFromFavorites_def)
  qed
qed

lemma remove_truncates:
  assumes "\<not> write_ok d" and "write_truncates d" and "dir_exists d"
    and "stored P k d = Arr xs" and "list_all has_props xs"
  shows "files (snd (removeFromWatchlist P k i d)) k = Some []"
proof -
  from getWatchlist_result [of P k d] assms(1,2,3,4)
  obtain d1 where g: "getWatchlist P k d = (Arr xs, d1)" and w: "\<not> write_ok d1"
    and t: "write_truncates d1" "dir_exists d1" by auto
  from saveData_fails [OF w, of P k "Arr (filter (\<lambda>a. \<not> has_id i a) xs)"] t
  obtain d2 where "saveData P k (Arr (filter (\<lambda>a. \<not> has_id i a) xs)) d1 = (Inl IOError, d2)"
    and "files d2 = (files d1)(k \<mapsto> [])"
    by auto
  with g assms(5) show ?thesis
    by (simp add: removeFromWatchlist_def js_find_props js_filter_props)
qed

lemma add_truncates:
  assumes "\<not> write_ok d" and "write_truncates d" and "dir_exists d"
    and "stored P k d = Arr xs" and "list_all has_props xs"
    and "get_prop record ''mal_id'' = Inr p" and "\<not> list_ex (has_id p) xs"
    and "mk clk record = Inr item"
  shows "files (snd (add_entry mk P k clk record d)) k = Some []"
proof -
  from getWatchlist_result [of P k d] assms(1,2,3,4)
  obtain d1 where g: "getWatchlist P k d = (Arr xs, d1)" and w: "\<not> write_ok d1"
    and t: "write_truncates d1" "dir_exists d1" by auto
  from assms(7) have "List.find (has_id p) xs = None"
    by (simp add: find_None_iff list_ex_iff)
  with assms(5,6) have f: "js_find (mal_id_matches record) xs = Inr Undefined"
    by (simp add: mal_id_matches_eq js_find_props)
  from saveData_fails [OF w, of P k "Arr (xs @ [item])"] t
  obtain d2 where "saveData P k (Arr (xs @ [item])) d1 = (Inl IOError, d2)"
    and "files d2 = (files d1)(k \<mapsto> [])" by auto
  with g f assms(8) show ?thesis by (simp add: add_entry_def)
qed

lemma update_truncates:
  assumes "\<not> write_ok d" and "write_truncates d" and "dir_exists d"
    and "stored P k d = Arr (pre @ e # post)"
    and "list_all has_props pre" and "list_all (\<lambda>a. \<not> has_id i a) pre" and "has_id i e"
  shows "files (snd (updateWatchlist P k i u d)) k = Some []"
proof -
  from getWatchlist_result [of P k d] assms(1,2,3,4)
  obtain d1 where g: "getWatchlist P k d = (Arr (pre @ e # post), d1)" and w: "\<not> write_ok d1"
    and t: "write_truncates d1" "dir_exists d1" by auto
  from saveData_fails [OF w, of P k "Arr (pre @ spread_merge e u # post)"] t
  obtain d2 where "saveData P k (Arr (pre @ spread_merge e u # post)) d1 = (Inl IOError, d2)"
    and "files d2 = (files d1)(k \<mapsto> [])" by auto
  with g js_findIndex_first [OF assms(5,6,7), of post] show ?thesis
    by (simp add: updateWatchlist_def)
qed

lemma write_failure_propagates:
  assumes "json_contract P" and "\<not> write_ok d" and "dir_exists d \<or> mkdir_ok d"
    and "stored P k d = Arr xs" and "list_all has_props xs"
  shows "fst (ipc_handle P clk (remove_request k i) d) = Inl IOError
       \<and> (write_truncates d \<longrightarrow> files (snd (ipc_handle P clk (remove_request k i) d)) k = Some [])"
    and "get_prop record ''mal_id'' = Inr p \<Longrightarrow> \<not> list_ex (has_id p) xs \<Longrightarrow>
         fst (ipc_handle P clk (add_request k record) d) = Inl IOError
       \<and> (write_truncates d \<longrightarrow> files (snd (ipc_handle P clk (add_request k record) d)) k = Some [])"
proof -
  from with_manager_any_disk [OF assms(1,3), of k] assms(2,4)
  have wm: "\<exists>d0. with_manager P k m d = m d0 \<and> dir_exists d0 \<and> \<not> write_ok d0
           \<and> write_truncates d0 = write_truncates d \<and> stored P k d0 = Arr xs" for m
    by metis
  from wm [of "removeFromWatchlist P k i"]
  obtain d0 where m: "ipc_handle P clk (remove_request k i) d = removeFromWatchlist P k i d0"
    and f: "dir_exists d0" "\<not> write_ok d0" "write_truncates d0 = write_truncates d"
      "stored P k d0 = Arr xs"
    by (auto simp: ipc_remove)
  from remove_unwritable [OF f(2,4) assms(5), of i] remove_truncates [OF f(2) _ f(1,4) assms(5), of i]
    f(3) m
  show "fst (ipc_handle P clk (remove_request k i) d) = Inl IOError
       \<and> (write_truncates d \<longrightarrow> files (snd (ipc_handle P clk (remove_request k i) d)) k = Some [])"
    by simp
  assume p: "get_prop record ''mal_id'' = Inr p" and n: "\<not> list_ex (has_id p) xs"
  from entry_maker_shape [OF p, of k clk] obtain item
    where i: "entry_maker k clk record = Inr item" by blast
  from wm [of "add_entry (entry_maker k) P k clk record"]
  obtain d0 where m: "ipc_handle P clk (add_request k record) d
        = add_entry (entry_maker k) P k clk record d0"
    and f: "dir_exists d0" "\<not> write_ok d0" "write_truncates d0 = write_truncates d"
      "stored P k d0 = Arr xs"
    by (auto simp: ipc_add)
  from add_unwritable [where mk = "entry_maker k", OF f(2,4) assms(5) p n i]
    add_truncates [where mk = "entry_maker k", OF f(2) _ f(1,4) assms(5) p n i] f(3) m
  show "fst (ipc_handle P clk (add_request k record) d) = Inl IOError
       \<and> (write_truncates d \<longrightarrow> files (snd (ipc_handle P clk (add_request k record) d)) k = Some [])"
    by simp
qed

lemma update_failure_propagates:
  assumes "json_contract P" and "\<not> write_ok d" and "dir_exists d \<or> mkdir_ok d"
    and "stored P Watchlist d = Arr (pre @ e # post)"
    and "list_all has_props pre" and "list_all (\<lambda>a. \<not> has_id i a) pre" and "has_id i e"
  shows "fst (ipc_handle P clk (UpdateWatchlist i u) d) = Inl IOError
       \<and> (write_truncates d \<longrightarrow>
            files (snd (ipc_handle P clk (UpdateWatchlist i u) d)) Watchlist = Some [])"
proof -
  from with_manager_any_disk [OF assms(1,3), of Watchlist "updateWatchlist P Watchlist i u"] assms(2,4)
  obtain d0 where m: "ipc_handle P clk (UpdateWatchlist i u) d = updateWatchlist P Watchlist i u d0"
    and f: "dir_exists d0" "\<not> write_ok d0" "write_truncates d0 = write_truncates d"
      "stored P Watchlist d0 = Arr (pre @ e # post)"
    by auto
  from update_unwritable [OF f(2,4) assms(5,6,7), of u]
    update_truncates [OF f(2) _ f(1,4) assms(5,6,7), of u] f(3) m
  show ?thesis by simp
qed

lemma remove_request_never_returns:
  assumes "\<not> write_ok d"
  shows "\<exists>e. fst (ipc_handle P clk (remove_request k i) d) = Inl e"
proof -
  obtain r d0 where e: "ensureDataDirectory P k d = (r, d0)"
    by (cases "ensureDataDirectory P k d")
  from ensure_flags [OF e] assms have w0: "\<not> write_ok d0" by simp
  show ?thesis
    using e remove_never_returns [OF w0, of P k i]
    by (cases r) (simp_all add: ipc_remove with_manager_def)
qed

lemma read_failure_continues:
  assumes "files d k = Some t" and "dir_exists d" and "write_ok d"
    and "\<not> read_ok d
         \<or> (js_trim t \<noteq> []
            \<and> (json_parse P t = None \<or> (\<exists>v. json_parse P t = Some v \<and> \<not> has_props v)))"
  shows "entry_maker k clk record = Inr item \<Longrightarrow>
           fst (ipc_handle P clk (add_request k record) d) = Inr (Arr [item])
         \<and> files (snd (ipc_handle P clk (add_request k record) d))
             = (files d)(k \<mapsto> json_stringify P 2 (Arr [item]))"
    and "fst (ipc_handle P clk (remove_request k i) d) = Inr (Arr [])
         \<and> files (snd (ipc_handle P clk (remove_request k i) d))
             = (files d)(k \<mapsto> json_stringify P 2 (Arr []))"
    and "k = Watchlist \<Longrightarrow>
           fst (ipc_handle P clk (UpdateWatchlist i u) d) = Inr (Arr [])
         \<and> files (snd (ipc_handle P clk (UpdateWatchlist i u) d))
             = (files d)(k \<mapsto> json_stringify P 2 (Arr []))"
    and "error_log (snd (ipc_handle P clk (remove_request k i) d))
           = error_log d @ [ErrorReading k
               (if \<not> read_ok d then IOError
                else if json_parse P t = None then SyntaxError else TypeError)]"
proof -
  note g = getWatchlist_repairs [OF assms]
  have w: "with_manager P k m d = m d" for m
    using assms(1,2) by (simp add: with_manager_present)
  show "fst (ipc_handle P clk (remove_request k i) d) = Inr (Arr [])
         \<and> files (snd (ipc_handle P clk (remove_request k i) d))
             = (files d)(k \<mapsto> json_stringify P 2 (Arr []))"
    using assms(2,3) by (simp add: ipc_remove w removeFromWatchlist_def g saveData_def)
  show "error_log (snd (ipc_handle P clk (remove_request k i) d))
           = error_log d @ [ErrorReading k
               (if \<not> read_ok d then IOError
                else if json_parse P t = None then SyntaxError else TypeError)]"
    using assms(2,3) by (simp add: ipc_remove w removeFromWatchlist_def g saveData_def)
  show "fst (ipc_handle P clk (UpdateWatchlist i u) d) = Inr (Arr [])
         \<and> files (snd (ipc_handle P clk (UpdateWatchlist i u) d))
             = (files d)(k \<mapsto> json_stringify P 2 (Arr []))" if "k = Watchlist"
    using assms(2,3) that w [of "updateWatchlist P Watchlist i u"] g
    by (simp add: updateWatchlist_def)
  show "fst (ipc_handle P clk (add_request k record) d) = Inr (Arr [item])
         \<and> files (snd (ipc_handle P clk (add_request k record) d))
             = (files d)(k \<mapsto> json_stringify P 2 (Arr [item]))"
    if "entry_maker k clk record = Inr item"
    using assms(2,3) that by (simp add: ipc_add w add_entry_def g saveData_def)
qed

lemma stored_unwritable_disk: "stored demo_platform Watchlist unwritable_disk = Arr two_entries"
proof -
  have "getWatchlist demo_platform Watchlist unwritable_disk
      = (json_norm (Arr two_entries), unwritable_disk)"
    by (rule getWatchlist_written [OF demo_contract, where n = 2])
       (simp_all add: unwritable_disk_def two_disk_def)
  then show ?thesis by (simp add: stored_def two_entries_def)
qed

lemma stored_truncating_disk: "stored demo_platform Watchlist truncating_disk = Arr two_entries"
proof -
  have "getWatchlist demo_platform Watchlist truncating_disk
      = (json_norm (Arr two_entries), truncating_disk)"
    by (rule getWatchlist_written [OF demo_contract, where n = 2])
       (simp_all add: truncating_disk_def two_disk_def)
  then show ?thesis by (simp add: stored_def two_entries_def)
qed

lemma animeItem_5114: "animeItem clock0 record5114 = Inr item5114"
  by (simp add: animeItem_def record5114_def item5114_def clock0_def opt_prop_def js_or_def
      show_nat_1700)

lemma stringify_differs:
  assumes "json_contract P" and "json_norm (Arr xs) \<noteq> json_norm (Arr ys)"
  shows "json_stringify P n (Arr xs) \<noteq> json_stringify P n (Arr ys)"
proof
  assume "json_stringify P n (Arr xs) = json_stringify P n (Arr ys)"
  then have "json_parse P (json_stringify P n (Arr xs)) = json_parse P (json_stringify P n (Arr ys))"
    by simp
  with assms show False by (simp add: contract_roundtrip)
qed

section \<open>The two paths of the renderer: supporting facts\<close>






lemma update_local_favorites_fields:
  "bridge (update_local_favorites u i r1) = bridge r1"
  "local_storage (update_local_favorites u i r1) = local_storage r1"
  by (auto simp: update_local_favorites_def showNotification_def split: jsval.splits sum.splits)


lemma load_saved_fields [simp]:
  "load_saved P key (showNotification n r) = load_saved P key r"
  "load_saved P key (r\<lparr>favorites := f\<rparr>) = load_saved P key r"
  by (simp_all add: load_saved_def showNotification_def)

lemma load_saved_update_local [simp]:
  "load_saved P key (update_local_favorites u i r1) = load_saved P key r1"
  by (simp add: load_saved_def update_local_favorites_fields)






section \<open>The claims\<close>

text \<open>
  C1. The claim as stated fails for update: the merge overwrites every supplied field,
  \<^verbatim>\<open>mal_id\<close> included, so an update can give an entry the ID of another one (the
  third theorem below is such a run). What holds, for every list kind
  and every request (get, add, remove, and an update whose fields do not include
  \<^verbatim>\<open>mal_id\<close>), on any disk, healthy or not: when no two stored entries share a catalog ID
  (the entries being objects as JavaScript has them), then after the request no two
  stored entries share one, and neither do two entries of the collection the request
  returns.
\<close>

theorem unique_ids_preserved:
  assumes "json_contract P" and "keeps_mal_id req"
    and "unique_collection (stored P (request_kind req) d)"
    and "proper_collection (stored P (request_kind req) d)"
  shows "unique_collection (stored P (request_kind req) (snd (ipc_handle P clk req d)))
       \<and> proper_collection (stored P (request_kind req) (snd (ipc_handle P clk req d)))
       \<and> (\<forall>v. fst (ipc_handle P clk req d) = Inr v \<longrightarrow> unique_collection v)"
proof (cases req)
  case GetWatchlist
  from assms(3,4) have u: "unique_collection (stored P Watchlist d)"
    and p: "proper_collection (stored P Watchlist d)"
    by (simp_all add: GetWatchlist)
  from good_get_request [OF assms(1) u p, of clk] show ?thesis
    by (simp add: GetWatchlist del: ipc_handle.simps)
next
  case (AddToWatchlist a)
  from assms(3,4) have u: "unique_collection (stored P Watchlist d)"
    and p: "proper_collection (stored P Watchlist d)"
    by (simp_all add: AddToWatchlist)
  from good_add_request [OF assms(1) u p, of clk a] show ?thesis
    by (simp add: AddToWatchlist del: ipc_handle.simps)
next
  case (RemoveFromWatchlist i)
  from assms(3,4) have u: "unique_collection (stored P Watchlist d)"
    and p: "proper_collection (stored P Watchlist d)"
    by (simp_all add: RemoveFromWatchlist)
  from good_remove_request [OF assms(1) u p, of clk i] show ?thesis
    by (simp add: RemoveFromWatchlist del: ipc_handle.simps)
next
  case (UpdateWatchlist i u)
  from assms(3,4) have u: "unique_collection (stored P Watchlist d)"
    and p: "proper_collection (stored P Watchlist d)"
    by (simp_all add: UpdateWatchlist)
  from assms(2) have k: "map_of (spread u) ''mal_id'' = None"
    by (simp add: UpdateWatchlist)
  from good_update_request [OF assms(1) u p k, of clk i] show ?thesis
    by (simp add: UpdateWatchlist del: ipc_handle.simps)
next
  case GetReadinglist
  from assms(3,4) have u: "unique_collection (stored P Readinglist d)"
    and p: "proper_collection (stored P Readinglist d)"
    by (simp_all add: GetReadinglist)
  from good_get_request [OF assms(1) u p, of clk] show ?thesis
    by (simp add: GetReadinglist del: ipc_handle.simps)
next
  case (AddToReadinglist a)
  from assms(3,4) have u: "unique_collection (stored P Readinglist d)"
    and p: "proper_collection (stored P Readinglist d)"
    by (simp_all add: AddToReadinglist)
  from good_add_request [OF assms(1) u p, of clk a] show ?thesis
    by (simp add: AddToReadinglist del: ipc_handle.simps)
next
  case (RemoveFromReadinglist i)
  from assms(3,4) have u: "unique_collection (stored P Readinglist d)"
    and p: "proper_collection (stored P Readinglist d)"
    by (simp_all add: RemoveFromReadinglist)
  from good_remove_request [OF assms(1) u p, of clk i] show ?thesis
    by (simp add: RemoveFromReadinglist del: ipc_handle.simps)
next
  case GetFavorites
  from assms(3,4) have u: "unique_collection (stored P Favorites d)"
    and p: "proper_collection (stored P Favorites d)"
    by (simp_all add: GetFavorites)
  from good_get_request [OF assms(1) u p, of clk] show ?thesis
    by (simp add: GetFavorites del: ipc_handle.simps)
next
  case (AddToFavorites a)
  from assms(3,4) have u: "unique_collection (stored P Favorites d)"
    and p: "proper_collection (stored P Favorites d)"
    by (simp_all add: AddToFavorites)
  from good_add_request [OF assms(1) u p, of clk a] show ?thesis
    by (simp add: AddToFavorites del: ipc_handle.simps)
next
  case (RemoveFromFavorites i)
  from assms(3,4) have u: "unique_collection (stored P Favorites d)"
    and p: "proper_collection (stored P Favorites d)"
    by (simp_all add: RemoveFromFavorites)
  from good_remove_request [OF assms(1) u p, of clk i] show ?thesis
    by (simp add: RemoveFromFavorites del: ipc_handle.simps)
qed

theorem unique_ids_preserved_witness:
  "unique_collection (stored demo_platform Watchlist
      (snd (ipc_handle demo_platform clock0
         (UpdateWatchlist (Num 1) (Obj [(''status'', Str ''watching'')])) two_disk)))
   \<and> proper_collection (stored demo_platform Watchlist
      (snd (ipc_handle demo_platform clock0
         (UpdateWatchlist (Num 1) (Obj [(''status'', Str ''watching'')])) two_disk)))"
proof -
  have h: "keeps_mal_id (UpdateWatchlist (Num 1) (Obj [(''status'', Str ''watching'')]))"
    "unique_collection (stored demo_platform
        (request_kind (UpdateWatchlist (Num 1) (Obj [(''status'', Str ''watching'')]))) two_disk)"
    "proper_collection (stored demo_platform
        (request_kind (UpdateWatchlist (Num 1) (Obj [(''status'', Str ''watching'')]))) two_disk)"
    by (simp_all add: stored_two_disk unique_two_entries proper_two_entries)
  from unique_ids_preserved [OF demo_contract h, of clock0] show ?thesis
    by (simp del: ipc_handle.simps)
qed

theorem update_can_duplicate_the_id:
  "unique_collection (stored demo_platform Watchlist two_disk)
   \<and> fst (ipc_handle demo_platform clock0
          (UpdateWatchlist (Num 1) (Obj [(''mal_id'', Num 2)])) two_disk)
       = Inr (Arr [Obj [(''mal_id'', Num 2)], Obj [(''mal_id'', Num 2)]])
   \<and> \<not> unique_collection (Arr [Obj [(''mal_id'', Num 2)], Obj [(''mal_id'', Num 2)]])"
proof -
  have s: "stored demo_platform Watchlist two_disk
      = Arr ([] @ Obj [(''mal_id'', Num 1)] # [Obj [(''mal_id'', Num 2)]])"
    by (simp add: stored_two_disk two_entries_def)
  have h: "list_all has_props []" "list_all (\<lambda>a. \<not> has_id (Num 1) a) []"
    "has_id (Num 1) (Obj [(''mal_id'', Num 1)])"
    by (simp_all add: has_id_def mal_id_is_def)
  from handle_update_found [OF demo_contract healthy_two_disk s h,
      of clock0 "Obj [(''mal_id'', Num 2)]"]
  have "fst (ipc_handle demo_platform clock0
          (UpdateWatchlist (Num 1) (Obj [(''mal_id'', Num 2)])) two_disk)
       = Inr (Arr [Obj [(''mal_id'', Num 2)], Obj [(''mal_id'', Num 2)]])"
    by (simp add: spread_merge_def)
  moreover have "\<not> unique_collection (Arr [Obj [(''mal_id'', Num 2)], Obj [(''mal_id'', Num 2)]])"
    by (simp add: unique_ids_def List.map_filter_simps catalog_id_def)
  ultimately show ?thesis
    using unique_two_entries by (simp add: stored_two_disk)
qed




text \<open>
  C3. The claim as stated fails twice. A read failure and a parse failure do not reach
  the caller: \<^verbatim>\<open>getWatchlist\<close> catches them, logs them and resets the file, so a mutating
  request goes on with the empty collection, returns normally and overwrites what the
  file held. And a write that fails after \<^verbatim>\<open>writeFileSync\<close> has opened the file leaves
  it empty, so the prior content is lost although the error is reported (the third
  theorem below shows both). What holds, for every list kind:

  On a disk that cannot be written, a remove request never returns normally, and any
  request that does return normally returns the stored collection as it is. When the
  data directory exists or can be made and the stored collection is an array of
  entries with readable properties, the write failure reaches the caller: a remove
  request fails with the I/O error, so does an add request for a record whose ID no
  stored entry has, and so does an update request for an ID that a stored entry has.
  When the write fails at the open, no request changes any backing file; when it fails
  after the open, the failing request leaves the backing file of its list empty.

  On a disk that can be written, when the backing file exists and reading it fails, or
  its text is not blank and \<^verbatim>\<open>JSON.parse\<close> rejects it or yields \<^verbatim>\<open>null\<close>: the requests
  return normally, the failure is logged, and the operation continues on the empty
  collection. A remove request and an update request return \<^verbatim>\<open>[]\<close> and leave the text of
  the empty array in the file; an add request returns the one new entry and leaves the
  text of that array in the file.
\<close>

theorem failure_semantics:
  assumes "json_contract P"
  shows "(\<not> write_ok d \<longrightarrow>
            (\<exists>err. fst (ipc_handle P clk (remove_request k ident) d) = Inl err)
          \<and> (\<forall>v. fst (ipc_handle P clk req d) = Inr v \<longrightarrow> v = stored P (request_kind req) d)
          \<and> (\<not> write_truncates d \<longrightarrow> files (snd (ipc_handle P clk req d)) = files d)
          \<and> ((dir_exists d \<or> mkdir_ok d) \<and> stored P k d = Arr xs \<and> list_all has_props xs \<longrightarrow>
               fst (ipc_handle P clk (remove_request k ident) d) = Inl IOError
             \<and> (write_truncates d \<longrightarrow>
                  files (snd (ipc_handle P clk (remove_request k ident) d)) k = Some [])
             \<and> (get_prop src ''mal_id'' = Inr p \<and> \<not> list_ex (has_id p) xs \<longrightarrow>
                  fst (ipc_handle P clk (add_request k src) d) = Inl IOError
                \<and> (write_truncates d \<longrightarrow>
                     files (snd (ipc_handle P clk (add_request k src) d)) k = Some [])))
          \<and> ((dir_exists d \<or> mkdir_ok d) \<and> stored P Watchlist d = Arr (pre @ e # post)
               \<and> list_all has_props pre \<and> list_all (\<lambda>a. \<not> has_id ident a) pre \<and> has_id ident e \<longrightarrow>
               fst (ipc_handle P clk (UpdateWatchlist ident updates) d) = Inl IOError
             \<and> (write_truncates d \<longrightarrow>
                  files (snd (ipc_handle P clk (UpdateWatchlist ident updates) d)) Watchlist
                    = Some [])))
       \<and> (write_ok d \<and> dir_exists d \<and> files d k = Some t
          \<and> (\<not> read_ok d
             \<or> (js_trim t \<noteq> []
                \<and> (json_parse P t = None \<or> (\<exists>v. json_parse P t = Some v \<and> \<not> has_props v)))) \<longrightarrow>
            fst (ipc_handle P clk (remove_request k ident) d) = Inr (Arr [])
          \<and> files (snd (ipc_handle P clk (remove_request k ident) d))
              = (files d)(k \<mapsto> json_stringify P 2 (Arr []))
          \<and> error_log (snd (ipc_handle P clk (remove_request k ident) d))
              = error_log d @ [ErrorReading k
                  (if \<not> read_ok d then IOError
                   else if json_parse P t = None then SyntaxError else TypeError)]
          \<and> (entry_maker k clk src = Inr item \<longrightarrow>
               fst (ipc_handle P clk (add_request k src) d) = Inr (Arr [item])
             \<and> files (snd (ipc_handle P clk (add_request k src) d))
                 = (files d)(k \<mapsto> json_stringify P 2 (Arr [item])))
          \<and> (k = Watchlist \<longrightarrow>
               fst (ipc_handle P clk (UpdateWatchlist ident updates) d) = Inr (Arr [])
             \<and> files (snd (ipc_handle P clk (UpdateWatchlist ident updates) d))
                 = (files d)(k \<mapsto> json_stringify P 2 (Arr []))))"
proof -
  have a: "\<exists>err. fst (ipc_handle P clk (remove_request k ident) d) = Inl err" if "\<not> write_ok d"
    using that by (rule remove_request_never_returns)
  have b: "(\<forall>v. fst (ipc_handle P clk req d) = Inr v \<longrightarrow> v = stored P (request_kind req) d)
      \<and> (\<not> write_truncates d \<longrightarrow> files (snd (ipc_handle P clk req d)) = files d)"
    if "\<not> write_ok d"
    using unwritable_request [OF assms that, of clk req] by blast
  have c: "fst (ipc_handle P clk (remove_request k ident) d) = Inl IOError
             \<and> (write_truncates d \<longrightarrow>
                  files (snd (ipc_handle P clk (remove_request k ident) d)) k = Some [])"
    if "\<not> write_ok d" "dir_exists d \<or> mkdir_ok d" "stored P k d = Arr xs" "list_all has_props xs"
    using that by (intro write_failure_propagates(1) [OF assms])
  have c': "fst (ipc_handle P clk (add_request k src) d) = Inl IOError
                \<and> (write_truncates d \<longrightarrow>
                     files (snd (ipc_handle P clk (add_request k src) d)) k = Some [])"
    if "\<not> write_ok d" "dir_exists d \<or> mkdir_ok d" "stored P k d = Arr xs" "list_all has_props xs"
      "get_prop src ''mal_id'' = Inr p" "\<not> list_ex (has_id p) xs"
    using that by (intro write_failure_propagates(2) [OF assms])
  have u: "fst (ipc_handle P clk (UpdateWatchlist ident updates) d) = Inl IOError
             \<and> (write_truncates d \<longrightarrow>
                  files (snd (ipc_handle P clk (UpdateWatchlist ident updates) d)) Watchlist
                    = Some [])"
    if "\<not> write_ok d" "dir_exists d \<or> mkdir_ok d" "stored P Watchlist d = Arr (pre @ e # post)"
      "list_all has_props pre" "list_all (\<lambda>a. \<not> has_id ident a) pre" "has_id ident e"
    using that by (intro update_failure_propagates [OF assms])
  note r = read_failure_continues [of d k t P]
  show ?thesis
    apply (intro conjI impI allI)
    subgoal using a by blast
    subgoal using b by blast
    subgoal using b by blast
    subgoal using c by blast
    subgoal using c by blast
    subgoal using c' by blast
    subgoal using c' by blast
    subgoal using u by blast
    subgoal using u by blast
    subgoal using r(2) by blast
    subgoal using r(2) by blast
    subgoal using r(4) by blast
    subgoal using r(1) by blast
    subgoal using r(1) by blast
    subgoal using r(3) by blast
    subgoal using r(3) by blast
    done
qed

theorem failure_semantics_witness:
  "fst (ipc_handle demo_platform clock0 (RemoveFromWatchlist (Num 1)) unwritable_disk)
     = Inl IOError
   \<and> files (snd (ipc_handle demo_platform clock0 (RemoveFromWatchlist (Num 1)) unwritable_disk))
       = files unwritable_disk
   \<and> fst (ipc_handle demo_platform clock0 (AddToWatchlist record5114) unwritable_disk)
       = Inl IOError
   \<and> fst (ipc_handle demo_platform clock0
          (UpdateWatchlist (Num 1) (Obj [(''status'', Str ''watching'')])) unwritable_disk)
       = Inl IOError
   \<and> files (snd (ipc_handle demo_platform clock0 (RemoveFromWatchlist (Num 1)) truncating_disk))
         Watchlist
       = Some []
   \<and> fst (ipc_handle demo_platform clock0 (AddToWatchlist record5114) corrupt_disk)
       = Inr (Arr [item5114])
   \<and> files (snd (ipc_handle demo_platform clock0 (AddToWatchlist record5114) corrupt_disk))
         Watchlist
       = Some (json_stringify demo_platform 2 (Arr [item5114]))"
proof -
  have w: "\<not> write_ok unwritable_disk" "\<not> write_truncates unwritable_disk"
    "dir_exists unwritable_disk \<or> mkdir_ok unwritable_disk"
    by (simp_all add: unwritable_disk_def two_disk_def)
  have e: "two_entries = [] @ Obj [(''mal_id'', Num 1)] # [Obj [(''mal_id'', Num 2)]]"
    "list_all has_props two_entries" "list_all has_props []"
    "list_all (\<lambda>a. \<not> has_id (Num 1) a) []" "has_id (Num 1) (Obj [(''mal_id'', Num 1)])"
    "get_prop record5114 ''mal_id'' = Inr (Num 5114)"
    "\<not> list_ex (has_id (Num 5114)) two_entries"
    by (simp_all add: two_entries_def has_id_def mal_id_is_def record5114_def)
  from failure_semantics [OF demo_contract, where d = unwritable_disk and clk = clock0
      and k = Watchlist and ident = "Num 1" and req = "RemoveFromWatchlist (Num 1)"
      and xs = two_entries and src = record5114 and p = "Num 5114"
      and pre = "[]" and e = "Obj [(''mal_id'', Num 1)]" and post = "[Obj [(''mal_id'', Num 2)]]"
      and updates = "Obj [(''status'', Str ''watching'')]"]
    w e stored_unwritable_disk
  have a: "fst (ipc_handle demo_platform clock0 (RemoveFromWatchlist (Num 1)) unwritable_disk)
     = Inl IOError
   \<and> files (snd (ipc_handle demo_platform clock0 (RemoveFromWatchlist (Num 1)) unwritable_disk))
       = files unwritable_disk
   \<and> fst (ipc_handle demo_platform clock0 (AddToWatchlist record5114) unwritable_disk)
       = Inl IOError
   \<and> fst (ipc_handle demo_platform clock0
          (UpdateWatchlist (Num 1) (Obj [(''status'', Str ''watching'')])) unwritable_disk)
       = Inl IOError"
    by (simp del: ipc_handle.simps)
  have t: "\<not> write_ok truncating_disk" "write_truncates truncating_disk"
    "dir_exists truncating_disk \<or> mkdir_ok truncating_disk"
    by (simp_all add: truncating_disk_def two_disk_def)
  from failure_semantics [OF demo_contract, where d = truncating_disk and clk = clock0
      and k = Watchlist and ident = "Num 1" and xs = two_entries]
    t e(2) stored_truncating_disk
  have b: "files (snd (ipc_handle demo_platform clock0 (RemoveFromWatchlist (Num 1)) truncating_disk))
         Watchlist = Some []"
    by (simp del: ipc_handle.simps)
  have c: "write_ok corrupt_disk" "dir_exists corrupt_disk"
    "files corrupt_disk Watchlist = Some [123, 111, 111, 112, 115]"
    "js_trim [123, 111, 111, 112, 115] \<noteq> []"
    "json_parse demo_platform [123, 111, 111, 112, 115] = None"
    "entry_maker Watchlist clock0 record5114 = Inr item5114"
    by (simp_all add: corrupt_disk_def js_trim_garbage demo_parse_garbage demo_platform_def
        animeItem_5114)
  from failure_semantics [OF demo_contract, where d = corrupt_disk and clk = clock0
      and k = Watchlist and t = "[123, 111, 111, 112, 115]" and src = record5114
      and item = item5114] c
  have d: "fst (ipc_handle demo_platform clock0 (AddToWatchlist record5114) corrupt_disk)
       = Inr (Arr [item5114])
   \<and> files (snd (ipc_handle demo_platform clock0 (AddToWatchlist record5114) corrupt_disk))
         Watchlist
       = Some (json_stringify demo_platform 2 (Arr [item5114]))"
    by (simp del: ipc_handle.simps)
  from a b d show ?thesis by simp
qed

theorem prior_content_can_be_lost:
  "files unreadable_disk Watchlist = Some (json_stringify demo_platform 2 (Arr two_entries))
   \<and> fst (ipc_handle demo_platform clock0 (AddToWatchlist record5114) unreadable_disk)
       = Inr (Arr [item5114])
   \<and> files (snd (ipc_handle demo_platform clock0 (AddToWatchlist record5114) unreadable_disk))
         Watchlist
       = Some (json_stringify demo_platform 2 (Arr [item5114]))
   \<and> json_stringify demo_platform 2 (Arr [item5114])
       \<noteq> json_stringify demo_platform 2 (Arr two_entries)
   \<and> fst (ipc_handle demo_platform clock0 (AddToWatchlist record5114) corrupt_disk)
       = Inr (Arr [item5114])
   \<and> files (snd (ipc_handle demo_platform clock0 (AddToWatchlist record5114) corrupt_disk))
         Watchlist
       = Some (json_stringify demo_platform 2 (Arr [item5114]))
   \<and> files truncating_disk Watchlist = Some (json_stringify demo_platform 2 (Arr two_entries))
   \<and> fst (ipc_handle demo_platform clock0 (RemoveFromWatchlist (Num 1)) truncating_disk)
       = Inl IOError
   \<and> files (snd (ipc_handle demo_platform clock0 (RemoveFromWatchlist (Num 1)) truncating_disk))
         Watchlist
       = Some []"
proof -
  have a: "fst (ipc_handle demo_platform clock0 (AddToWatchlist record5114) unreadable_disk)
       = Inr (Arr [item5114])
     \<and> files (snd (ipc_handle demo_platform clock0 (AddToWatchlist record5114) unreadable_disk))
         Watchlist
       = Some (json_stringify demo_platform 2 (Arr [item5114]))"
    by (simp add: with_manager_def ensureDataDirectory_def addToWatchlist_def add_entry_def
        getWatchlist_def saveData_def unreadable_disk_def two_disk_def animeItem_5114
        del: json_norm.simps)
  have b: "fst (ipc_handle demo_platform clock0 (AddToWatchlist record5114) corrupt_disk)
       = Inr (Arr [item5114])
     \<and> files (snd (ipc_handle demo_platform clock0 (AddToWatchlist record5114) corrupt_disk))
         Watchlist
       = Some (json_stringify demo_platform 2 (Arr [item5114]))"
    by (simp add: with_manager_def ensureDataDirectory_def addToWatchlist_def add_entry_def
        getWatchlist_def saveData_def corrupt_disk_def animeItem_5114
        js_trim_garbage demo_parse_garbage demo_platform_def
        del: json_norm.simps)
  have c: "json_stringify demo_platform 2 (Arr [item5114])
       \<noteq> json_stringify demo_platform 2 (Arr two_entries)"
    by (rule stringify_differs [OF demo_contract]) (simp add: item5114_def two_entries_def)
  have d: "files unreadable_disk Watchlist
       = Some (json_stringify demo_platform 2 (Arr two_entries))"
    "files truncating_disk Watchlist = Some (json_stringify demo_platform 2 (Arr two_entries))"
    by (simp_all add: unreadable_disk_def truncating_disk_def two_disk_def)
  have g: "getWatchlist demo_platform Watchlist truncating_disk
      = (Arr two_entries, truncating_disk)"
    using getWatchlist_written [OF demo_contract, of truncating_disk Watchlist 2 two_entries]
    by (simp add: truncating_disk_def two_disk_def two_entries_def)
  have p: "list_all has_props two_entries" by (simp add: two_entries_def)
  have e: "fst (ipc_handle demo_platform clock0 (RemoveFromWatchlist (Num 1)) truncating_disk)
       = Inl IOError
     \<and> files (snd (ipc_handle demo_platform clock0 (RemoveFromWatchlist (Num 1)) truncating_disk))
         Watchlist = Some []"
    using g p
    by (simp add: with_manager_def ensureDataDirectory_def removeFromWatchlist_def
        js_find_props js_filter_props saveData_def)
       (simp add: truncating_disk_def two_disk_def)
  from a b c d e show ?thesis by simp
qed

text \<open>
  C4. For every list kind, on a healthy disk whose stored collection is an array of
  values with readable properties in which no two entries share a catalog ID: after
  one or more add requests with the same record, whose \<^verbatim>\<open>mal_id\<close> is a primitive value, a
  get returns an array with exactly one entry of that catalog ID.
\<close>

theorem add_is_idempotent:
  assumes "json_contract P" and "healthy d" and "stored P k d = Arr xs"
    and "list_all has_props xs" and "unique_ids xs"
    and "get_prop record ''mal_id'' = Inr p" and "primitive p" and "clks \<noteq> []"
  shows "\<exists>ys. fst (ipc_handle P clk' (get_request k) (add_times P k clks record d)) = Inr (Arr ys)
           \<and> length (filter (\<lambda>e. catalog_id e = Some p) ys) = 1"
proof -
  obtain clk rest where clks: "clks = clk # rest" using assms(8) by (cases clks) auto
  let ?d1 = "snd (ipc_handle P clk (add_request k record) d)"
  from handle_add [OF assms(1,2,3,4,6,7), of clk]
  obtain item where r1: "ready ?d1"
    and s1: "stored P k ?d1 = Arr (if list_ex (has_id p) xs then xs else xs @ [json_norm item])"
    and c: "catalog_id (json_norm item) = Some p" and h: "has_props (json_norm item)"
    by auto
  let ?ys = "if list_ex (has_id p) xs then xs else xs @ [json_norm item]"
  have hp: "list_all has_props ?ys" using assms(4) h by simp
  have one: "length (filter (\<lambda>e. catalog_id e = Some p) ?ys) = 1"
  proof (cases "list_ex (has_id p) xs")
    case True
    then have "0 < length (filter (\<lambda>e. catalog_id e = Some p) xs)"
      by (simp only: list_ex_count [OF assms(7)])
    with unique_ids_count [OF assms(5), of p]
    have "length (filter (\<lambda>e. catalog_id e = Some p) xs) = 1" by linarith
    with True show ?thesis by simp
  next
    case False
    then have "filter (\<lambda>e. catalog_id e = Some p) xs = []"
      by (simp add: list_ex_count [OF assms(7)])
    with False c show ?thesis by simp
  qed
  from add_times_keeps_one [OF assms(1,6,7) hp one r1 s1, of rest]
  have r: "ready (add_times P k clks record d)"
    and s: "stored P k (add_times P k clks record d) = Arr ?ys"
    by (simp_all add: clks)
  from handle_get [OF assms(1) ready_healthy [OF r], of clk' k] s one show ?thesis by auto
qed

theorem add_is_idempotent_witness:
  "\<exists>ys. fst (ipc_handle demo_platform clock0 GetWatchlist
            (add_times demo_platform Watchlist [clock0, clock0, clock0] record5114 two_disk))
          = Inr (Arr ys)
        \<and> length (filter (\<lambda>e. catalog_id e = Some (Num 5114)) ys) = 1"
proof -
  have h: "list_all has_props two_entries" "get_prop record5114 ''mal_id'' = Inr (Num 5114)"
    "primitive (Num 5114)" "[clock0, clock0, clock0] \<noteq> []"
    by (simp_all add: two_entries_def record5114_def)
  from add_is_idempotent [OF demo_contract healthy_two_disk stored_two_disk h(1)
      unique_two_entries h(2,3,4), of clock0]
  show ?thesis by simp
qed

text \<open>
  C5. Adding the record \<^verbatim>\<open>{mal_id: 5114, title: "X"}\<close> to an empty watchlist on a healthy
  disk returns a collection with one entry: status \<^verbatim>\<open>planning\<close>, no episode watched, and
  the numbers \<^verbatim>\<open>episodes\<close>, \<^verbatim>\<open>score\<close> and \<^verbatim>\<open>rating\<close> all 0. Adding the same record again
  returns one entry still: the first one as it was stored (JSON left its \<^verbatim>\<open>undefined\<close>
  image out), with the time stamps of the first call.
\<close>

theorem add_scenario_5114:
  assumes "json_contract P" and "healthy d" and "stored P Watchlist d = Arr []"
  shows "fst (ipc_handle P clk1 (AddToWatchlist record5114) d)
           = Inr (Arr [Obj
               [(''id'', Str (show_nat (now_ms clk1))),
                (''mal_id'', Num 5114),
                (''title'', Str ''X''),
                (''image'', Undefined),
                (''episodes'', Num 0),
                (''score'', Num 0),
                (''episodes_watched'', Num 0),
                (''status'', Str ''planning''),
                (''rating'', Num 0),
                (''notes'', Str []),
                (''added_date'', Str (now_iso clk1))]])
       \<and> fst (ipc_handle P clk2 (AddToWatchlist record5114)
              (snd (ipc_handle P clk1 (AddToWatchlist record5114) d)))
           = Inr (Arr [Obj
               [(''id'', Str (show_nat (now_ms clk1))),
                (''mal_id'', Num 5114),
                (''title'', Str ''X''),
                (''episodes'', Num 0),
                (''score'', Num 0),
                (''episodes_watched'', Num 0),
                (''status'', Str ''planning''),
                (''rating'', Num 0),
                (''notes'', Str []),
                (''added_date'', Str (now_iso clk1))]])"
proof -
  have m: "get_prop record5114 ''mal_id'' = Inr (Num 5114)" "primitive (Num 5114)"
    by (simp_all add: record5114_def)
  have e: "list_all has_props []" by simp
  let ?d1 = "snd (ipc_handle P clk1 (AddToWatchlist record5114) d)"
  from handle_add [OF assms(1,2,3) e m, of clk1]
  obtain item where i: "entry_maker Watchlist clk1 record5114 = Inr item"
    and a1: "fst (ipc_handle P clk1 (AddToWatchlist record5114) d) = Inr (Arr [item])"
    and r1: "ready ?d1" and s1: "stored P Watchlist ?d1 = Arr [json_norm item]"
    and c: "catalog_id (json_norm item) = Some (Num 5114)" and p: "has_props (json_norm item)"
    by auto
  have p1: "list_all has_props [json_norm item]" using p by simp
  have x: "list_ex (has_id (Num 5114)) [json_norm item]"
    using c by (simp add: has_id_primitive)
  from handle_add [OF assms(1) ready_healthy [OF r1] s1 p1 m, of clk2] x
  have a2: "fst (ipc_handle P clk2 (AddToWatchlist record5114) ?d1) = Inr (Arr [json_norm item])"
    by auto
  from i have "item = Obj
               [(''id'', Str (show_nat (now_ms clk1))),
                (''mal_id'', Num 5114),
                (''title'', Str ''X''),
                (''image'', Undefined),
                (''episodes'', Num 0),
                (''score'', Num 0),
                (''episodes_watched'', Num 0),
                (''status'', Str ''planning''),
                (''rating'', Num 0),
                (''notes'', Str []),
                (''added_date'', Str (now_iso clk1))]"
    by (auto simp: animeItem_def record5114_def opt_prop_def js_or_def)
  with a1 a2 show ?thesis by simp
qed

theorem add_scenario_5114_witness:
  "fst (ipc_handle demo_platform clock0 (AddToWatchlist record5114) fresh_disk)
           = Inr (Arr [Obj
               [(''id'', Str ''1700''),
                (''mal_id'', Num 5114),
                (''title'', Str ''X''),
                (''image'', Undefined),
                (''episodes'', Num 0),
                (''score'', Num 0),
                (''episodes_watched'', Num 0),
                (''status'', Str ''planning''),
                (''rating'', Num 0),
                (''notes'', Str []),
                (''added_date'', Str ''2023-11-14T22:13:20.000Z'')]])
   \<and> fst (ipc_handle demo_platform clock0 (AddToWatchlist record5114)
          (snd (ipc_handle demo_platform clock0 (AddToWatchlist record5114) fresh_disk)))
           = Inr (Arr [Obj
               [(''id'', Str ''1700''),
                (''mal_id'', Num 5114),
                (''title'', Str ''X''),
                (''episodes'', Num 0),
                (''score'', Num 0),
                (''episodes_watched'', Num 0),
                (''status'', Str ''planning''),
                (''rating'', Num 0),
                (''notes'', Str []),
                (''added_date'', Str ''2023-11-14T22:13:20.000Z'')]])"
  using add_scenario_5114 [OF demo_contract healthy_fresh_disk stored_fresh_disk, of clock0 clock0]
  by (simp add: clock0_def show_nat_1700)

text \<open>
  C6. For every list kind and every ID, on a healthy disk whose stored collection is an
  array of values with readable properties: the remove request returns the stored
  entries that fail the test \<^verbatim>\<open>a.mal_id === id\<close>, in their order, and a get after it
  returns the same collection. So no entry with the ID is left, and when no entry had
  the ID the collection is the one before. The example: from the entries with IDs 1 and
  2, removing 1 leaves exactly the entry with ID 2.
\<close>

theorem remove_then_get:
  assumes "json_contract P" and "healthy d" and "stored P k d = Arr xs"
    and "list_all has_props xs"
  shows "fst (ipc_handle P clk (remove_request k ident) d)
           = Inr (Arr (filter (\<lambda>a. \<not> has_id ident a) xs))
       \<and> fst (ipc_handle P clk' (get_request k) (snd (ipc_handle P clk (remove_request k ident) d)))
           = Inr (Arr (filter (\<lambda>a. \<not> has_id ident a) xs))
       \<and> list_all (\<lambda>a. \<not> has_id ident a) (filter (\<lambda>a. \<not> has_id ident a) xs)
       \<and> (list_all (\<lambda>a. \<not> has_id ident a) xs \<longrightarrow> filter (\<lambda>a. \<not> has_id ident a) xs = xs)"
proof -
  from handle_remove [OF assms, of clk ident]
  obtain d2 where h: "ipc_handle P clk (remove_request k ident) d
        = (Inr (Arr (filter (\<lambda>a. \<not> has_id ident a) xs)), d2)"
    and r: "ready d2" and s: "stored P k d2 = Arr (filter (\<lambda>a. \<not> has_id ident a) xs)"
    by blast
  from handle_get [OF assms(1) ready_healthy [OF r], of clk' k] h s show ?thesis
    by (auto simp: list_all_iff)
qed

theorem remove_then_get_witness:
  "fst (ipc_handle demo_platform clock0 (RemoveFromWatchlist (Num 1)) two_disk)
     = Inr (Arr [Obj [(''mal_id'', Num 2)]])
   \<and> fst (ipc_handle demo_platform clock0 GetWatchlist
          (snd (ipc_handle demo_platform clock0 (RemoveFromWatchlist (Num 1)) two_disk)))
     = Inr (Arr [Obj [(''mal_id'', Num 2)]])"
proof -
  have p: "list_all has_props two_entries" by (simp add: two_entries_def)
  have f: "filter (\<lambda>a. \<not> has_id (Num 1) a) two_entries = [Obj [(''mal_id'', Num 2)]]"
    by (simp add: two_entries_def has_id_def mal_id_is_def)
  from remove_then_get [OF demo_contract healthy_two_disk stored_two_disk p,
      of clock0 "Num 1" clock0] f
  show ?thesis by simp
qed

text \<open>
  C7. On a healthy disk, for every stored watchlist, every ID and every set of fields:
  when some entry passes the test \<^verbatim>\<open>a.mal_id === id\<close> (\<open>e\<close> is the first one, the entries
  before it are readable), the update request returns the array with \<open>e\<close> replaced by the
  merge and every other entry as it was, and saves that array; in the merge every
  supplied field has the supplied value and every other field its value in \<open>e\<close>
  (\<open>e\<close> and the fields being objects as JavaScript has them, no property name twice).
  When no entry passes the test, the request returns the array as stored and leaves
  the disk exactly as a get request leaves it: nothing more is written.
\<close>

theorem update_changes_named_fields:
  assumes "json_contract P" and "healthy d" and "stored P Watchlist d = Arr xs"
  shows "(xs = pre @ e # post \<and> list_all has_props pre
            \<and> list_all (\<lambda>a. \<not> has_id ident a) pre \<and> has_id ident e
            \<and> distinct (map fst (spread e)) \<and> distinct (map fst (spread updates))
          \<longrightarrow> fst (ipc_handle P clk (UpdateWatchlist ident updates) d)
                = Inr (Arr (pre @ spread_merge e updates # post))
              \<and> files (snd (ipc_handle P clk (UpdateWatchlist ident updates) d)) Watchlist
                = Some (json_stringify P 2 (Arr (pre @ spread_merge e updates # post)))
              \<and> (\<forall>f. field (spread_merge e updates) f
                     = (case field updates f of Some v \<Rightarrow> Some v | None \<Rightarrow> field e f)))
       \<and> (list_all has_props xs \<and> list_all (\<lambda>a. \<not> has_id ident a) xs
          \<longrightarrow> ipc_handle P clk (UpdateWatchlist ident updates) d
                = (Inr (Arr xs), snd (ipc_handle P clk GetWatchlist d)))"
proof -
  from with_manager_healthy [OF assms(1,2), of Watchlist]
  have w: "\<exists>d0. with_manager P Watchlist m d = m d0 \<and> ready d0 \<and> stored P Watchlist d0 = Arr xs" for m
    using assms(3) by metis
  have found: "fst (ipc_handle P clk (UpdateWatchlist ident updates) d)
                = Inr (Arr (pre @ spread_merge e updates # post))
              \<and> files (snd (ipc_handle P clk (UpdateWatchlist ident updates) d)) Watchlist
                = Some (json_stringify P 2 (Arr (pre @ spread_merge e updates # post)))"
    if x: "xs = pre @ e # post" and p: "list_all has_props pre"
      and n: "list_all (\<lambda>a. \<not> has_id ident a) pre" and h: "has_id ident e"
  proof -
    from w [of "updateWatchlist P Watchlist ident updates"]
    obtain d0 where m: "ipc_handle P clk (UpdateWatchlist ident updates) d
          = updateWatchlist P Watchlist ident updates d0"
      and r: "ready d0" and s: "stored P Watchlist d0 = Arr (pre @ e # post)"
      using x by auto
    from update_found [OF assms(1) r s p n h, of updates] m show ?thesis by auto
  qed
  have absent: "ipc_handle P clk (UpdateWatchlist ident updates) d
                = (Inr (Arr xs), snd (ipc_handle P clk GetWatchlist d))"
    if p: "list_all has_props xs" and n: "list_all (\<lambda>a. \<not> has_id ident a) xs"
  proof -
    obtain d0 where e: "ensureDataDirectory P Watchlist d = (Inr (), d0)"
      and s: "stored P Watchlist d0 = Arr xs"
      using ensure_healthy [OF assms(1,2), of Watchlist] assms(3) by auto
    from update_absent [OF s p n, of updates] e s show ?thesis
      by (simp add: with_manager_def returning_def stored_def)
  qed
  from found absent field_spread_merge show ?thesis by blast
qed

theorem update_changes_named_fields_witness:
  "fst (ipc_handle demo_platform clock0
          (UpdateWatchlist (Num 1) (Obj [(''status'', Str ''watching'')])) two_disk)
     = Inr (Arr [Obj [(''mal_id'', Num 1), (''status'', Str ''watching'')],
                 Obj [(''mal_id'', Num 2)]])
   \<and> field (spread_merge (Obj [(''mal_id'', Num 1)]) (Obj [(''status'', Str ''watching'')]))
         ''mal_id'' = Some (Num 1)
   \<and> fst (ipc_handle demo_platform clock0
          (UpdateWatchlist (Num 3) (Obj [(''status'', Str ''watching'')])) two_disk)
     = Inr (Arr two_entries)"
proof -
  note t = update_changes_named_fields [OF demo_contract healthy_two_disk stored_two_disk]
  have a: "two_entries = [] @ Obj [(''mal_id'', Num 1)] # [Obj [(''mal_id'', Num 2)]]"
    "has_id (Num 1) (Obj [(''mal_id'', Num 1)])"
    "list_all has_props two_entries" "list_all (\<lambda>a. \<not> has_id (Num 3) a) two_entries"
    by (simp_all add: two_entries_def has_id_def mal_id_is_def)
  from t [where pre = "[]" and e = "Obj [(''mal_id'', Num 1)]"
        and post = "[Obj [(''mal_id'', Num 2)]]" and ident = "Num 1"
        and updates = "Obj [(''status'', Str ''watching'')]" and clk = clock0] a(1,2)
  have "fst (ipc_handle demo_platform clock0
          (UpdateWatchlist (Num 1) (Obj [(''status'', Str ''watching'')])) two_disk)
     = Inr (Arr [Obj [(''mal_id'', Num 1), (''status'', Str ''watching'')],
                 Obj [(''mal_id'', Num 2)]])
     \<and> field (spread_merge (Obj [(''mal_id'', Num 1)]) (Obj [(''status'', Str ''watching'')]))
         ''mal_id'' = Some (Num 1)"
    by (simp add: spread_merge_def field_def)
  moreover from t [where pre = "[]" and e = "Obj [(''mal_id'', Num 1)]"
        and post = "[Obj [(''mal_id'', Num 2)]]" and ident = "Num 3"
        and updates = "Obj [(''status'', Str ''watching'')]" and clk = clock0] a(3,4)
  have "fst (ipc_handle demo_platform clock0
          (UpdateWatchlist (Num 3) (Obj [(''status'', Str ''watching'')])) two_disk)
     = Inr (Arr two_entries)"
    by simp
  ultimately show ?thesis by simp
qed

text \<open>
  C8. For every list kind: when the backing file holds text that is not blank and that
  \<^verbatim>\<open>JSON.parse\<close> rejects, the get request returns the empty collection and no error, a
  second get returns the empty collection too, and where the disk can be written the
  file now holds the text of the empty array. The condition is logged: the store writes
  one line with \<^verbatim>\<open>console.error\<close>, naming the list kind and the exception (the
  SyntaxError; the I/O error when already the read fails), and a second line when the
  reset itself cannot be written.
\<close>

theorem corrupt_file_is_reset:
  assumes "json_contract P" and "files d k = Some t" and "dir_exists d"
    and "js_trim t \<noteq> []" and "json_parse P t = None"
  shows "fst (ipc_handle P clk (get_request k) d) = Inr (Arr [])
       \<and> fst (ipc_handle P clk' (get_request k) (snd (ipc_handle P clk (get_request k) d)))
           = Inr (Arr [])
       \<and> (write_ok d \<longrightarrow>
            files (snd (ipc_handle P clk (get_request k) d)) k
              = Some (json_stringify P 2 (Arr [])))
       \<and> error_log (snd (ipc_handle P clk (get_request k) d))
           = error_log d @ [ErrorReading k (if read_ok d then SyntaxError else IOError)]
               @ (if write_ok d then [] else [ErrorSaving k IOError])"
proof -
  let ?c = "console_error (ErrorReading k (if read_ok d then SyntaxError else IOError)) d"
  let ?d1 = "snd (saveData P k (Arr []) ?c)"
  have first: "ipc_handle P clk (get_request k) d = (Inr (Arr []), ?d1)"
    using assms by (simp add: ipc_get with_manager_present getWatchlist_corrupt returning_def)
  have f1: "files ?d1 k
      = (if write_ok d then Some (json_stringify P 2 (Arr []))
         else if write_truncates d then Some [] else Some t)"
    using assms by (simp add: saveData_files)
  have "fst (getWatchlist P k ?d1) = Arr []"
  proof (cases "write_ok d")
    case True
    with f1 assms(1) show ?thesis by (simp add: getWatchlist_empty_written)
  next
    case False
    show ?thesis
    proof (cases "write_truncates d")
      case True
      with False f1 show ?thesis by (simp add: getWatchlist_def)
    next
      case n: False
      with False f1 assms show ?thesis by (simp add: getWatchlist_corrupt)
    qed
  qed
  then have second: "fst (ipc_handle P clk' (get_request k) ?d1) = Inr (Arr [])"
    using f1 assms(3) by (simp add: ipc_get with_manager_present returning_def split: if_splits)
  have l: "error_log ?d1
      = error_log d @ [ErrorReading k (if read_ok d then SyntaxError else IOError)]
          @ (if write_ok d then [] else [ErrorSaving k IOError])"
    using assms(3) by (simp add: saveData_log)
  from first second f1 l show ?thesis by simp
qed

theorem corrupt_file_is_reset_witness:
  "fst (ipc_handle demo_platform clock0 GetWatchlist corrupt_disk) = Inr (Arr [])
   \<and> fst (ipc_handle demo_platform clock0 GetWatchlist
          (snd (ipc_handle demo_platform clock0 GetWatchlist corrupt_disk))) = Inr (Arr [])
   \<and> files (snd (ipc_handle demo_platform clock0 GetWatchlist corrupt_disk)) Watchlist
       = Some [14]
   \<and> error_log (snd (ipc_handle demo_platform clock0 GetWatchlist corrupt_disk))
       = [ErrorReading Watchlist SyntaxError]"
proof -
  have h: "files corrupt_disk Watchlist = Some [123, 111, 111, 112, 115]"
    "dir_exists corrupt_disk" "js_trim [123, 111, 111, 112, 115] \<noteq> []"
    "json_parse demo_platform [123, 111, 111, 112, 115] = None"
    by (simp_all add: corrupt_disk_def js_trim_garbage demo_parse_garbage demo_platform_def)
  have w: "write_ok corrupt_disk" "read_ok corrupt_disk" "error_log corrupt_disk = []"
    by (simp_all add: corrupt_disk_def)
  from corrupt_file_is_reset [OF demo_contract h, of clock0 clock0] w
  show ?thesis by (simp add: demo_stringify_empty del: ipc_handle.simps)
qed

text \<open>
  C9. For every list kind: when the backing file is missing (and the data directory
  exists or can be made), the get request returns the empty collection, and where the
  disk can be written the file exists afterwards and holds the text of the empty array.
  The constructor of the manager creates it, before \<^verbatim>\<open>getWatchlist\<close> runs.
\<close>

theorem missing_file_is_created:
  assumes "json_contract P" and "files d k = None" and "dir_exists d \<or> mkdir_ok d"
  shows "fst (ipc_handle P clk (get_request k) d) = Inr (Arr [])
       \<and> (write_ok d \<longrightarrow>
            files (snd (ipc_handle P clk (get_request k) d)) k
              = Some (json_stringify P 2 (Arr [])))"
proof -
  let ?d0 = "if dir_exists d then d else d\<lparr>dir_exists := True\<rparr>"
  let ?d1 = "snd (saveData P k (Arr []) ?d0)"
  have e: "ensureDataDirectory P k d = (Inr (), ?d1)"
    using assms by (auto simp: ensureDataDirectory_def Let_def)
  have f1: "files ?d1 k
      = (if write_ok d then Some (json_stringify P 2 (Arr []))
         else if write_truncates d then Some [] else None)"
    using assms by (simp add: saveData_files)
  have g: "fst (getWatchlist P k ?d1) = Arr []"
  proof (cases "write_ok d")
    case True
    with f1 assms(1) show ?thesis by (simp add: getWatchlist_empty_written)
  next
    case False
    with f1 show ?thesis by (cases "write_truncates d") (simp_all add: getWatchlist_def)
  qed
  have h: "ipc_handle P clk (get_request k) d = returning (getWatchlist P k ?d1)"
    using e by (simp add: ipc_get with_manager_def)
  have "files (snd (getWatchlist P k ?d1)) k = Some (json_stringify P 2 (Arr []))" if "write_ok d"
    using that f1 getWatchlist_files [of P k ?d1] by auto
  with g h show ?thesis by (simp add: returning_def)
qed

theorem missing_file_is_created_witness:
  "fst (ipc_handle demo_platform clock0 GetReadinglist fresh_disk) = Inr (Arr [])
   \<and> files (snd (ipc_handle demo_platform clock0 GetReadinglist fresh_disk)) Readinglist
       = Some [14]"
proof -
  have h: "files fresh_disk Readinglist = None" "dir_exists fresh_disk \<or> mkdir_ok fresh_disk"
    by (simp_all add: fresh_disk_def)
  have w: "write_ok fresh_disk" by (simp add: fresh_disk_def)
  from missing_file_is_created [OF demo_contract h, of clock0] w
  show ?thesis by (simp add: demo_stringify_empty)
qed




end
